theory Spec2Isabelle
  imports Main "HOL-Library.Char_ord" "HOL-Library.List_Lexorder"
begin

section \<open>The chat server of main.cpp as a state machine\<close>

text \<open>
  The program is a single-threaded asio event loop. Every completion handler runs to the
  end before the next one starts, so the program is modelled as a transition system whose
  steps are the handlers: a connection accepted, a chunk read on a session, and the
  cleanup that an I/O error of a session triggers. A session object is identified by a
  natural number (its address); the three global containers and the stream of
  \<open>async_write\<close> calls issued so far make up the rest of the state.
\<close>

subsection \<open>Characters and strings\<close>

abbreviation LF :: char where "LF \<equiv> CHR 0x0A"
abbreviation CR :: char where "CR \<equiv> CHR 0x0D"
abbreviation ESC :: char where "ESC \<equiv> CHR 0x1B"

text \<open>
  \<open>std::isspace\<close> in the "C" locale: space, \<open>\t \n \v \f \r\<close>. No byte above 0x7F is
  whitespace there.
\<close>

definition isspace :: "char \<Rightarrow> bool" where
  "isspace c = (c = CHR 0x20 \<or> c = CHR 0x09 \<or> c = LF \<or> c = CHR 0x0B \<or> c = CHR 0x0C \<or> c = CR)"

text \<open>
  \<open>trim\<close>: two remove-erase passes delete every \<open>\r\<close> and every \<open>\n\<close> of the string,
  then the leading and the trailing run of whitespace is erased.
\<close>

definition trim :: "string \<Rightarrow> string" where
  "trim s =
     (let s1 = filter (\<lambda>c. c \<noteq> CR) s;
          s2 = filter (\<lambda>c. c \<noteq> LF) s1;
          s3 = dropWhile isspace s2
      in rev (dropWhile isspace (rev s3)))"

text \<open>\<open>s.rfind(pre, 0) == 0\<close>: \<open>pre\<close> occurs at position 0 of \<open>s\<close>.\<close>

definition starts_with :: "string \<Rightarrow> string \<Rightarrow> bool" where
  "starts_with s pre = (take (length pre) s = pre)"

text \<open>\<open>std::to_string\<close> of an unsigned size: its decimal digits.\<close>

definition digit :: "nat \<Rightarrow> char" where
  "digit d = char_of (48 + d)"

fun to_string :: "nat \<Rightarrow> string" where
  "to_string n = (if n < 10 then [digit n] else to_string (n div 10) @ [digit (n mod 10)])"

declare to_string.simps [simp del]

definition name_colors :: "string list" where
  "name_colors = [ESC # ''[36m'', ESC # ''[32m'', ESC # ''[33m'', ESC # ''[35m'', ESC # ''[34m'']"

definition reset_color :: string where
  "reset_color = ESC # ''[0m''"

subsection \<open>Containers\<close>

text \<open>
  A \<open>std::set\<close> of session pointers is the list of its elements in increasing order; a
  \<open>std::map\<close> keyed by strings is the list of its entries in increasing key order
  (\<open>std::string\<close> compares bytewise and lexicographically, as the list order does).
\<close>

type_synonym sid = nat

definition set_insert :: "sid \<Rightarrow> sid list \<Rightarrow> sid list" where
  "set_insert x xs = (if x \<in> set xs then xs else insort x xs)"

definition set_erase :: "sid \<Rightarrow> sid list \<Rightarrow> sid list" where
  "set_erase x xs = removeAll x xs"

text \<open>\<open>m.count(k)\<close>, \<open>m.find(k)\<close> (as \<open>map_of\<close>), \<open>m[k] = v\<close>, \<open>m[k]\<close> and \<open>m.erase(k)\<close>.\<close>

definition map_count :: "string \<Rightarrow> (string \<times> 'v) list \<Rightarrow> bool" where
  "map_count k m = (map_of m k \<noteq> None)"

fun map_assign :: "string \<Rightarrow> 'v \<Rightarrow> (string \<times> 'v) list \<Rightarrow> (string \<times> 'v) list" where
  "map_assign k v [] = [(k, v)]"
| "map_assign k v ((k', v') # m) =
     (if k = k' then (k, v) # m
      else if k < k' then (k, v) # (k', v') # m
      else (k', v') # map_assign k v m)"

text \<open>
  \<open>operator[]\<close> used as a read: an absent key is inserted with the default value \<open>d\<close>
  (an empty set, a null pointer). \<open>map_index\<close> is the map afterwards, \<open>map_at\<close> the
  value read.
\<close>

definition map_index :: "string \<Rightarrow> 'v \<Rightarrow> (string \<times> 'v) list \<Rightarrow> (string \<times> 'v) list" where
  "map_index k d m = (case map_of m k of None \<Rightarrow> map_assign k d m | Some v \<Rightarrow> m)"

definition map_at :: "string \<Rightarrow> 'v \<Rightarrow> (string \<times> 'v) list \<Rightarrow> 'v" where
  "map_at k d m = (case map_of m k of None \<Rightarrow> d | Some v \<Rightarrow> v)"

definition map_erase :: "string \<Rightarrow> (string \<times> 'v) list \<Rightarrow> (string \<times> 'v) list" where
  "map_erase k m = filter (\<lambda>p. fst p \<noteq> k) m"

subsection \<open>Sessions and globals\<close>

datatype Mode = Mode_None | Mode_Room | Mode_Pv

record ChatSession =
  name :: string
  color :: string
  has_name :: bool
  mode :: Mode
  active_room :: string
  active_pv :: string

text \<open>
  The globals \<open>sessions\<close>, \<open>rooms\<close>, \<open>users_by_name\<close> and \<open>color_index\<close>. A value of
  \<open>users_by_name\<close> is a shared pointer, which may be null (\<open>None\<close>). \<open>wire\<close> is the
  sequence of \<open>async_write\<close> calls issued so far: the receiving session and the text.
\<close>

record globals =
  sessions :: "sid list"
  rooms :: "(string \<times> sid list) list"
  users_by_name :: "(string \<times> sid option) list"
  color_index :: nat
  wire :: "(sid \<times> string) list"

record system =
  heap :: "sid \<rightharpoonup> ChatSession"
  glob :: globals

subsection \<open>The methods of ChatSession\<close>

text \<open>
  A method reads and writes the fields of its own object and the globals; of another
  session it only calls \<open>deliver\<close>. So a method is a function from the object's fields
  \<open>s\<close>, its identity \<open>self\<close> and the globals to the new fields and globals.
\<close>

definition deliver :: "sid \<Rightarrow> string \<Rightarrow> globals \<Rightarrow> globals" where
  "deliver t msg g = g\<lparr>wire := wire g @ [(t, msg)]\<rparr>"

definition colored_name :: "ChatSession \<Rightarrow> string" where
  "colored_name s = color s @ name s @ reset_color"

definition broadcast_all :: "string \<Rightarrow> globals \<Rightarrow> globals" where
  "broadcast_all msg g = fold (\<lambda>t. deliver t msg) (sessions g) g"

definition broadcast_room :: "string \<Rightarrow> string \<Rightarrow> globals \<Rightarrow> globals" where
  "broadcast_room room msg g =
     (case map_of (rooms g) room of
        None \<Rightarrow> g
      | Some ms \<Rightarrow> fold (\<lambda>t. deliver t msg) ms g)"

text \<open>
  The block that \<open>leave_all\<close> and \<open>cleanup\<close> share: erase the session from its active
  room and tell the members that remain.
\<close>

definition leave_room :: "sid \<Rightarrow> ChatSession \<Rightarrow> globals \<Rightarrow> globals" where
  "leave_room self s g =
     (if mode s = Mode_Room \<and> active_room s \<noteq> []
      then (case map_of (rooms g) (active_room s) of
              None \<Rightarrow> g
            | Some ms \<Rightarrow>
                broadcast_room (active_room s)
                  (colored_name s @ '' left room '' @ active_room s @ ''.'' @ [LF])
                  (g\<lparr>rooms := map_assign (active_room s) (set_erase self ms) (rooms g)\<rparr>))
      else g)"

definition leave_all :: "sid \<Rightarrow> ChatSession \<Rightarrow> globals \<Rightarrow> ChatSession \<times> globals" where
  "leave_all self s g =
     (s\<lparr>mode := Mode_None, active_room := [], active_pv := []\<rparr>, leave_room self s g)"

definition switch_to_room :: "sid \<Rightarrow> string \<Rightarrow> ChatSession \<Rightarrow> globals \<Rightarrow> ChatSession \<times> globals" where
  "switch_to_room self room s g =
     (let (s1, g1) = leave_all self s g;
          s2 = s1\<lparr>mode := Mode_Room, active_room := room\<rparr>;
          g2 = g1\<lparr>rooms := map_assign room (set_insert self (map_at room [] (rooms g1))) (rooms g1)\<rparr>;
          g3 = broadcast_room room (colored_name s2 @ '' joined room '' @ room @ ''.'' @ [LF]) g2
      in (s2, deliver self (''You are now in room '' @ room @ ''. Type to chat here.'' @ [LF]) g3))"

definition switch_to_pv :: "sid \<Rightarrow> string \<Rightarrow> ChatSession \<Rightarrow> globals \<Rightarrow> ChatSession \<times> globals" where
  "switch_to_pv self target s g =
     (if \<not> map_count target (users_by_name g)
      then (s, deliver self (''User not found.'' @ [LF]) g)
      else if target = name s
      then (s, deliver self (''You cannot start PV with yourself.'' @ [LF]) g)
      else (let (s1, g1) = leave_all self s g;
                s2 = s1\<lparr>mode := Mode_Pv, active_pv := target\<rparr>
            in (s2, deliver self (''Private chat with '' @ target @ '' started. Type to chat.'' @ [LF]) g1)))"

definition send_message :: "sid \<Rightarrow> string \<Rightarrow> ChatSession \<Rightarrow> globals \<Rightarrow> globals" where
  "send_message self text s g =
     (if mode s = Mode_Room \<and> active_room s \<noteq> []
      then fold (\<lambda>t g'. if t = self then g'
                         else deliver t (colored_name s @ '' ['' @ active_room s @ '']: '' @ text @ [LF]) g')
             (map_at (active_room s) [] (rooms g))
             (g\<lparr>rooms := map_index (active_room s) [] (rooms g)\<rparr>)
      else if mode s = Mode_Pv \<and> active_pv s \<noteq> []
      then (let g1 = g\<lparr>users_by_name := map_index (active_pv s) None (users_by_name g)\<rparr>
            in case map_at (active_pv s) None (users_by_name g) of
                 Some t \<Rightarrow>
                   deliver t (''You have new message in pv '' @ name s @ [LF])
                     (deliver t (colored_name s @ '' (PV): '' @ text @ [LF]) g1)
               | None \<Rightarrow> deliver self (''User went offline.'' @ [LF]) g1)
      else deliver self (''You are not in a room or pv. Use /join <room> or /pv <user>'' @ [LF]) g)"

definition report_whereami :: "sid \<Rightarrow> ChatSession \<Rightarrow> globals \<Rightarrow> globals" where
  "report_whereami self s g =
     (if mode s = Mode_Room then deliver self (''You are in room: '' @ active_room s @ [LF]) g
      else if mode s = Mode_Pv then deliver self (''You are in pv with: '' @ active_pv s @ [LF]) g
      else deliver self (''You are in: none'' @ [LF]) g)"

definition rooms_text :: "(string \<times> sid list) list \<Rightarrow> string" where
  "rooms_text m =
     fold (\<lambda>r out. out @ ''- '' @ fst r @ '' ('' @ to_string (length (snd r)) @ '' users)'' @ [LF])
       m (''Rooms:'' @ [LF])"

definition list_rooms :: "sid \<Rightarrow> globals \<Rightarrow> globals" where
  "list_rooms self g = deliver self (rooms_text (rooms g)) g"

definition users_text :: "(string \<times> sid option) list \<Rightarrow> string" where
  "users_text m = fold (\<lambda>kv out. out @ ''- '' @ fst kv @ [LF]) m (''Users:'' @ [LF])"

definition list_users :: "sid \<Rightarrow> globals \<Rightarrow> globals" where
  "list_users self g = deliver self (users_text (users_by_name g)) g"

definition handle_name :: "sid \<Rightarrow> string \<Rightarrow> ChatSession \<Rightarrow> globals \<Rightarrow> ChatSession \<times> globals" where
  "handle_name self nm s g =
     (if map_count nm (users_by_name g)
      then (s, deliver self ''Name already taken. Try another: '' g)
      else (let s1 = s\<lparr>name := nm, has_name := True\<rparr>;
                g1 = g\<lparr>users_by_name := map_assign nm (Some self) (users_by_name g)\<rparr>;
                g2 = deliver self (''Hi '' @ colored_name s1 @ ''! Commands: ''
                       @ ''/join <room>, /pv <user>, /leave, /whereami, /rooms, /users'' @ [LF]) g1
            in (s1, broadcast_all (colored_name s1 @ '' joined the server.'' @ [LF]) g2)))"

definition handle_command_or_message ::
  "sid \<Rightarrow> string \<Rightarrow> ChatSession \<Rightarrow> globals \<Rightarrow> ChatSession \<times> globals" where
  "handle_command_or_message self msg s g =
     (if starts_with msg ''/join '' then switch_to_room self (drop 6 msg) s g
      else if starts_with msg ''/pv '' then switch_to_pv self (drop 4 msg) s g
      else if msg = ''/leave''
      then (let (s1, g1) = leave_all self s g
            in (s1, deliver self (''You left all contexts. Mode: none.'' @ [LF]) g1))
      else if msg = ''/whereami'' then (s, report_whereami self s g)
      else if msg = ''/rooms'' then (s, list_rooms self g)
      else if msg = ''/users'' then (s, list_users self g)
      else (s, send_message self msg s g))"

text \<open>The handler of \<open>async_read_some\<close> when the read succeeded with the bytes \<open>chunk\<close>.\<close>

definition do_read :: "sid \<Rightarrow> string \<Rightarrow> ChatSession \<Rightarrow> globals \<Rightarrow> ChatSession \<times> globals" where
  "do_read self chunk s g =
     (let msg = trim chunk
      in if msg = [] then (s, g)
         else if \<not> has_name s then handle_name self msg s g
         else handle_command_or_message self msg s g)"

definition cleanup :: "sid \<Rightarrow> ChatSession \<Rightarrow> globals \<Rightarrow> ChatSession \<times> globals" where
  "cleanup self s g =
     (let g1 = g\<lparr>sessions := set_erase self (sessions g)\<rparr>;
          g2 = (if name s \<noteq> []
                then (if map_at (name s) None (users_by_name g1) = Some self
                      then g1\<lparr>users_by_name := map_erase (name s) (users_by_name g1)\<rparr>
                      else g1\<lparr>users_by_name := map_index (name s) None (users_by_name g1)\<rparr>)
                else g1);
          g3 = leave_room self s g2;
          s1 = s\<lparr>mode := Mode_None, active_room := [], active_pv := []\<rparr>
      in (s1, if has_name s
              then broadcast_all (colored_name s1 @ '' left the server.'' @ [LF]) g3
              else g3))"

text \<open>The constructor and \<open>start\<close>, run by the accept handler on a new object.\<close>

definition new_session :: "globals \<Rightarrow> ChatSession" where
  "new_session g =
     \<lparr>name = [], color = name_colors ! (color_index g mod length name_colors),
      has_name = False, mode = Mode_None, active_room = [], active_pv = []\<rparr>"

definition start :: "sid \<Rightarrow> globals \<Rightarrow> globals" where
  "start self g =
     deliver self ''Welcome! Please enter your name: ''
       (g\<lparr>sessions := set_insert self (sessions g)\<rparr>)"

subsection \<open>The event loop\<close>

text \<open>
  \<open>Accept\<close>: a connection is accepted and a session object is made at a new address.
  \<open>Recv\<close>: a read on a session completes with a chunk of at most 2048 bytes.
  \<open>Io_error\<close>: a read or a write of a session completes with an error, and its handler
  calls \<open>cleanup\<close>. A write error leaves the read loop armed, and each failed write calls
  \<open>cleanup\<close> again, so both events stay enabled for every object that was made. (After
  a failed read the program reads no more from that session; the model does not record
  which of the two errors occurred, so its reachable states include those of the
  program.) An accept that fails makes no object and changes nothing.
\<close>

datatype event = Accept sid | Recv sid string | Io_error sid

definition init :: system where
  "init = \<lparr>heap = Map.empty,
           glob = \<lparr>sessions = [], rooms = [], users_by_name = [], color_index = 0, wire = []\<rparr>\<rparr>"

definition on_object ::
  "sid \<Rightarrow> (ChatSession \<Rightarrow> globals \<Rightarrow> ChatSession \<times> globals) \<Rightarrow> system \<Rightarrow> system" where
  "on_object self f st =
     (case heap st self of
        None \<Rightarrow> st
      | Some s \<Rightarrow> (let (s', g') = f s (glob st) in \<lparr>heap = (heap st)(self \<mapsto> s'), glob = g'\<rparr>))"

fun step :: "event \<Rightarrow> system \<Rightarrow> system" where
  "step (Accept self) st =
     \<lparr>heap = (heap st)(self \<mapsto> new_session (glob st)),
      glob = start self ((glob st)\<lparr>color_index := color_index (glob st) + 1\<rparr>)\<rparr>"
| "step (Recv self chunk) st = on_object self (do_read self chunk) st"
| "step (Io_error self) st = on_object self (cleanup self) st"

fun enabled :: "event \<Rightarrow> system \<Rightarrow> bool" where
  "enabled (Accept self) st = (heap st self = None)"
| "enabled (Recv self chunk) st = (heap st self \<noteq> None \<and> length chunk \<le> 2048)"
| "enabled (Io_error self) st = (heap st self \<noteq> None)"

inductive reachable :: "system \<Rightarrow> bool" where
  reachable_init: "reachable init"
| reachable_step: "reachable st \<Longrightarrow> enabled e st \<Longrightarrow> reachable (step e st)"

text \<open>A run of events from a state, and whether every event is enabled where it occurs.\<close>

fun run :: "event list \<Rightarrow> system \<Rightarrow> system" where
  "run [] st = st"
| "run (e # es) st = run es (step e st)"

fun valid_run :: "event list \<Rightarrow> system \<Rightarrow> bool" where
  "valid_run [] st = True"
| "valid_run (e # es) st = (enabled e st \<and> valid_run es (step e st))"

text \<open>The writes a handler issued: what \<open>wire\<close> holds beyond its length before.\<close>

definition sent :: "globals \<Rightarrow> globals \<Rightarrow> (sid \<times> string) list" where
  "sent g g' = drop (length (wire g)) (wire g')"

text \<open>The members of a room; a room without an entry has none.\<close>

definition room_members :: "string \<Rightarrow> globals \<Rightarrow> sid set" where
  "room_members r g = (case map_of (rooms g) r of None \<Rightarrow> {} | Some ms \<Rightarrow> set ms)"

subsection \<open>Invariants of the reachable states\<close>

text \<open>
  A session that has no name yet is idle: it never ran a command. A session in room mode
  has a room name that is not empty, it is a member of exactly that room, and a session
  of \<open>sessions\<close> that has a name is the one \<open>users_by_name\<close> holds under that name.
\<close>

definition unnamed_ok :: "ChatSession \<Rightarrow> bool" where
  "unnamed_ok s = (has_name s \<or> (mode s = Mode_None \<and> active_room s = [] \<and> active_pv s = [] \<and> name s = []))"

definition inv_rooms :: "system \<Rightarrow> bool" where
  "inv_rooms st = (\<forall>r t. (t \<in> room_members r (glob st)) =
      (\<exists>s. heap st t = Some s \<and> mode s = Mode_Room \<and> active_room s = r))"

definition inv_room_named :: "system \<Rightarrow> bool" where
  "inv_room_named st = (\<forall>t s. heap st t = Some s \<longrightarrow> mode s = Mode_Room \<longrightarrow> active_room s \<noteq> [])"

definition inv_unnamed :: "system \<Rightarrow> bool" where
  "inv_unnamed st = (\<forall>t s. heap st t = Some s \<longrightarrow> unnamed_ok s)"

definition inv_names :: "system \<Rightarrow> bool" where
  "inv_names st = (\<forall>t s. t \<in> set (sessions (glob st)) \<longrightarrow> heap st t = Some s \<longrightarrow> has_name s \<longrightarrow>
      map_of (users_by_name (glob st)) (name s) = Some (Some t))"

subsection \<open>The preprocessing in the words of the specification\<close>

text \<open>
  The specification describes the preprocessing of a chunk as: strip the trailing
  carriage returns and newlines, then trim the whitespace at both ends. \<open>spec_trim\<close>
  is that description, to be compared with \<open>trim\<close>, which is the code.
\<close>

definition strip_trailing_crlf :: "string \<Rightarrow> string" where
  "strip_trailing_crlf s = rev (dropWhile (\<lambda>c. c = CR \<or> c = LF) (rev s))"

definition strip_whitespace :: "string \<Rightarrow> string" where
  "strip_whitespace s = rev (dropWhile isspace (rev (dropWhile isspace s)))"

definition spec_trim :: "string \<Rightarrow> string" where
  "spec_trim s = strip_whitespace (strip_trailing_crlf s)"

subsection \<open>Concrete runs\<close>

text \<open>Runs of the event loop from the initial state, used to evaluate the handlers.\<close>

definition trace_lobby :: "event list" where
  "trace_lobby = [Accept 1, Recv 1 ''Alice'', Recv 1 ''/join lobby'']"

definition trace_two :: "event list" where
  "trace_two = [Accept 1, Accept 2]"

definition trace_carol :: "event list" where
  "trace_carol = [Accept 1, Accept 2, Recv 1 ''Carol'']"

definition trace_pv_offline :: "event list" where
  "trace_pv_offline = [Accept 1, Accept 2, Recv 1 ''a'', Recv 2 ''b'', Recv 1 ''/pv b'', Io_error 2]"

definition trace_ab :: "event list" where
  "trace_ab = [Accept 1, Accept 2, Recv 1 ''a'', Recv 2 ''b'']"

definition trace_room2 :: "event list" where
  "trace_room2 = [Accept 1, Accept 2, Recv 1 ''Alice'', Recv 2 ''Bob'',
                  Recv 1 ''/join lobby'', Recv 2 ''/join lobby'']"

definition trace_dup :: "event list" where
  "trace_dup = [Accept 1, Recv 1 ''a'', Io_error 1, Accept 2, Recv 2 ''a'',
                Recv 1 ''/join x'', Recv 2 ''/join x'']"

definition trace_null :: "event list" where
  "trace_null = [Accept 1, Accept 2, Recv 1 ''a'', Recv 2 ''b'', Recv 1 ''/pv b'', Io_error 2,
                 Recv 1 ''hi'', Accept 3, Recv 3 ''c'', Recv 1 ''/join lobby'', Recv 3 ''/join lobby'']"

section \<open>Facts about the containers and the string functions\<close>

lemma map_of_map_assign: "map_of (map_assign k v m) = (map_of m)(k \<mapsto> v)"
  by (induction m) (auto simp: fun_upd_twist)

lemma map_of_map_erase: "map_of (map_erase k m) = (map_of m)(k := None)"
  by (induction m) (auto simp: map_erase_def)

lemma map_of_map_index:
  "map_of (map_index k d m) = (case map_of m k of None \<Rightarrow> (map_of m)(k \<mapsto> d) | Some v \<Rightarrow> map_of m)"
  by (simp add: map_index_def map_of_map_assign split: option.splits)

lemma set_set_insert: "set (set_insert x xs) = insert x (set xs)"
  by (simp add: set_insert_def set_insort_key insert_absorb)

lemma set_set_erase: "set (set_erase x xs) = set xs - {x}"
  by (auto simp: set_erase_def)

lemma fold_deliver: "fold (\<lambda>t. deliver t msg) ts g = g\<lparr>wire := wire g @ map (\<lambda>t. (t, msg)) ts\<rparr>"
  by (induction ts arbitrary: g) (simp_all add: deliver_def)

lemma fold_deliver_others:
  "fold (\<lambda>t g'. if t = self then g' else deliver t msg g') ts g
     = g\<lparr>wire := wire g @ map (\<lambda>t. (t, msg)) (filter (\<lambda>t. t \<noteq> self) ts)\<rparr>"
  by (induction ts arbitrary: g) (simp_all add: deliver_def)

lemma rstrip_prefix: "xs = rev (dropWhile P (rev xs)) @ rev (takeWhile P (rev xs))"
proof -
  have "rev xs = takeWhile P (rev xs) @ dropWhile P (rev xs)" by simp
  then have "rev (rev xs) = rev (takeWhile P (rev xs) @ dropWhile P (rev xs))" by (rule arg_cong)
  then show ?thesis by (simp only: rev_rev_ident rev_append)
qed

lemma trim_last: "trim s \<noteq> [] \<Longrightarrow> \<not> isspace (last (trim s))"
  by (simp add: trim_def Let_def last_rev hd_dropWhile)

lemma trim_hd: "trim s \<noteq> [] \<Longrightarrow> \<not> isspace (hd (trim s))"
proof -
  assume ne: "trim s \<noteq> []"
  define s3 where "s3 = dropWhile isspace (filter (\<lambda>c. c \<noteq> LF) (filter (\<lambda>c. c \<noteq> CR) s))"
  have t: "trim s = rev (dropWhile isspace (rev s3))" by (simp add: trim_def s3_def)
  have "s3 = trim s @ rev (takeWhile isspace (rev s3))" unfolding t by (rule rstrip_prefix)
  with ne have "hd s3 = hd (trim s)" "s3 \<noteq> []" by (metis hd_append2, auto)
  then show ?thesis unfolding s3_def using hd_dropWhile by metis
qed

section \<open>What each method does to the globals\<close>

lemma deliver_fields [simp]:
  "sessions (deliver t m g) = sessions g" "rooms (deliver t m g) = rooms g"
  "users_by_name (deliver t m g) = users_by_name g" "color_index (deliver t m g) = color_index g"
  "wire (deliver t m g) = wire g @ [(t, m)]"
  by (simp_all add: deliver_def)

lemma broadcast_all_eq: "broadcast_all msg g = g\<lparr>wire := wire g @ map (\<lambda>t. (t, msg)) (sessions g)\<rparr>"
  by (simp add: broadcast_all_def fold_deliver)

lemma broadcast_room_eq:
  "broadcast_room room msg g = g\<lparr>wire := wire g @ map (\<lambda>t. (t, msg)) (map_at room [] (rooms g))\<rparr>"
  by (simp add: broadcast_room_def map_at_def fold_deliver split: option.splits)

lemma room_members_wire [simp]: "room_members r (g\<lparr>wire := w\<rparr>) = room_members r g"
  by (simp add: room_members_def)

lemma leave_room_fields [simp]:
  "sessions (leave_room self s g) = sessions g"
  "users_by_name (leave_room self s g) = users_by_name g"
  "color_index (leave_room self s g) = color_index g"
  by (simp_all add: leave_room_def broadcast_room_eq split: option.splits)

lemma room_members_leave_room:
  "room_members r (leave_room self s g) =
     (if mode s = Mode_Room \<and> active_room s \<noteq> [] \<and> r = active_room s
      then room_members r g - {self} else room_members r g)"
  by (cases "map_of (rooms g) (active_room s)")
     (auto simp: leave_room_def broadcast_room_eq room_members_def map_of_map_assign set_set_erase)


lemma room_members_deliver [simp]: "room_members r (deliver t m g) = room_members r g"
  by (simp add: room_members_def)

lemma switch_to_room_fst:
  "fst (switch_to_room self room s g) = s\<lparr>mode := Mode_Room, active_room := room, active_pv := []\<rparr>"
  by (simp add: switch_to_room_def leave_all_def Let_def)

lemma switch_to_room_members:
  "room_members r (snd (switch_to_room self room s g)) =
     (if r = room then insert self (room_members r (leave_room self s g))
      else room_members r (leave_room self s g))"
  by (auto simp: switch_to_room_def leave_all_def Let_def broadcast_room_eq room_members_def
        map_of_map_assign set_set_insert map_at_def split: option.splits)

lemma switch_to_room_fields [simp]:
  "sessions (snd (switch_to_room self room s g)) = sessions g"
  "users_by_name (snd (switch_to_room self room s g)) = users_by_name g"
  "color_index (snd (switch_to_room self room s g)) = color_index g"
  by (simp_all add: switch_to_room_def leave_all_def Let_def broadcast_room_eq)

lemma switch_to_pv_fst:
  "fst (switch_to_pv self target s g) =
     (if \<not> map_count target (users_by_name g) \<or> target = name s then s
      else s\<lparr>mode := Mode_Pv, active_room := [], active_pv := target\<rparr>)"
  by (simp add: switch_to_pv_def leave_all_def Let_def)

lemma switch_to_pv_members:
  "room_members r (snd (switch_to_pv self target s g)) =
     (if \<not> map_count target (users_by_name g) \<or> target = name s then room_members r g
      else room_members r (leave_room self s g))"
  by (simp add: switch_to_pv_def leave_all_def Let_def room_members_def deliver_def)

lemma switch_to_pv_fields [simp]:
  "sessions (snd (switch_to_pv self target s g)) = sessions g"
  "users_by_name (snd (switch_to_pv self target s g)) = users_by_name g"
  "color_index (snd (switch_to_pv self target s g)) = color_index g"
  by (simp_all add: switch_to_pv_def leave_all_def Let_def)

lemma send_message_rooms:
  "rooms (send_message self text s g) =
     (if mode s = Mode_Room \<and> active_room s \<noteq> [] then map_index (active_room s) [] (rooms g)
      else rooms g)"
  by (simp add: send_message_def fold_deliver_others Let_def split: option.splits)

lemma send_message_users_by_name:
  "users_by_name (send_message self text s g) =
     (if \<not> (mode s = Mode_Room \<and> active_room s \<noteq> []) \<and> mode s = Mode_Pv \<and> active_pv s \<noteq> []
      then map_index (active_pv s) None (users_by_name g)
      else users_by_name g)"
  by (simp add: send_message_def fold_deliver_others Let_def split: option.splits)

lemma send_message_fields [simp]:
  "sessions (send_message self text s g) = sessions g"
  "color_index (send_message self text s g) = color_index g"
  by (simp_all add: send_message_def fold_deliver_others Let_def split: option.splits)

lemma send_message_members: "room_members r (send_message self text s g) = room_members r g"
  by (simp add: room_members_def send_message_rooms map_of_map_index split: option.splits)

lemma send_message_users:
  "map_of (users_by_name (send_message self text s g)) k =
     (if \<not> (mode s = Mode_Room \<and> active_room s \<noteq> []) \<and> mode s = Mode_Pv \<and> active_pv s \<noteq> []
         \<and> map_of (users_by_name g) (active_pv s) = None \<and> k = active_pv s
      then Some None
      else map_of (users_by_name g) k)"
  by (simp add: send_message_users_by_name map_of_map_index split: option.splits)


lemma join_only_text: "take 6 m = ''/join '' \<Longrightarrow> drop 6 m = [] \<Longrightarrow> m = ''/join ''"
  by (metis append_take_drop_id append_Nil2)

lemma join_only_last: "m = ''/join '' \<Longrightarrow> isspace (last m) \<and> m \<noteq> []"
proof -
  have "last ''/join '' = CHR '' ''" by simp
  moreover have "isspace (CHR '' '')" by (simp add: isspace_def)
  moreover have "''/join '' \<noteq> []" by blast
  ultimately show "m = ''/join '' \<Longrightarrow> isspace (last m) \<and> m \<noteq> []" by metis
qed

lemma starts_with_join: "starts_with m ''/join '' \<Longrightarrow> take 6 m = ''/join ''"
proof -
  have "length ''/join '' = 6" by simp
  then show "starts_with m ''/join '' \<Longrightarrow> take 6 m = ''/join ''"
    unfolding starts_with_def by metis
qed

lemma join_room_nonempty:
  assumes "starts_with (trim c) ''/join ''"
  shows "drop 6 (trim c) \<noteq> []"
proof
  assume "drop 6 (trim c) = []"
  with starts_with_join [OF assms] have "trim c = ''/join ''" by (rule join_only_text)
  then have "isspace (last (trim c)) \<and> trim c \<noteq> []" by (rule join_only_last)
  then show False using trim_last by blast
qed

lemma handle_name_fst:
  "fst (handle_name self nm s g) =
     (if map_count nm (users_by_name g) then s else s\<lparr>name := nm, has_name := True\<rparr>)"
  by (simp add: handle_name_def Let_def)

lemma handle_name_fields [simp]:
  "sessions (snd (handle_name self nm s g)) = sessions g"
  "rooms (snd (handle_name self nm s g)) = rooms g"
  "color_index (snd (handle_name self nm s g)) = color_index g"
  by (simp_all add: handle_name_def Let_def broadcast_all_eq)

lemma handle_name_users:
  "users_by_name (snd (handle_name self nm s g)) =
     (if map_count nm (users_by_name g) then users_by_name g
      else map_assign nm (Some self) (users_by_name g))"
  by (simp add: handle_name_def Let_def broadcast_all_eq)

lemma cleanup_fst:
  "fst (cleanup self s g) = s\<lparr>mode := Mode_None, active_room := [], active_pv := []\<rparr>"
  by (simp add: cleanup_def Let_def)

lemma cleanup_sessions: "sessions (snd (cleanup self s g)) = set_erase self (sessions g)"
  by (simp add: cleanup_def Let_def broadcast_all_eq)

lemma cleanup_users:
  "users_by_name (snd (cleanup self s g)) =
     (if name s = [] then users_by_name g
      else if map_at (name s) None (users_by_name g) = Some self
      then map_erase (name s) (users_by_name g)
      else map_index (name s) None (users_by_name g))"
  by (simp add: cleanup_def Let_def broadcast_all_eq)

lemma room_members_cong: "rooms g' = rooms g \<Longrightarrow> room_members r g' = room_members r g"
  by (simp add: room_members_def)

lemma leave_room_rooms:
  "rooms (leave_room self s g) =
     (if mode s = Mode_Room \<and> active_room s \<noteq> []
      then (case map_of (rooms g) (active_room s) of
              None \<Rightarrow> rooms g
            | Some ms \<Rightarrow> map_assign (active_room s) (set_erase self ms) (rooms g))
      else rooms g)"
  by (simp add: leave_room_def broadcast_room_eq split: option.splits)

lemma cleanup_members:
  "room_members r (snd (cleanup self s g)) = room_members r (leave_room self s g)"
proof -
  have "rooms (snd (cleanup self s g)) = rooms (leave_room self s g)"
    by (simp add: cleanup_def Let_def broadcast_all_eq leave_room_rooms split: option.splits)
  then show ?thesis by (rule room_members_cong)
qed

lemma hcm_sessions [simp]: "sessions (snd (handle_command_or_message self msg s g)) = sessions g"
  by (simp add: handle_command_or_message_def leave_all_def
        report_whereami_def list_rooms_def list_users_def)

section \<open>The cases of the read handler\<close>

lemma handle_name_members: "room_members r (snd (handle_name self nm s g)) = room_members r g"
  by (rule room_members_cong) simp

lemma do_read_snd:
  "snd (do_read self chunk s g) =
     (if trim chunk = [] then g
      else if \<not> has_name s then snd (handle_name self (trim chunk) s g)
      else snd (handle_command_or_message self (trim chunk) s g))"
  by (simp add: do_read_def Let_def)

lemma do_read_sessions [simp]: "sessions (snd (do_read self chunk s g)) = sessions g"
  by (simp add: do_read_snd)

lemma hcm_is_join:
  "starts_with msg ''/join '' \<Longrightarrow>
     handle_command_or_message self msg s g = switch_to_room self (drop 6 msg) s g"
  by (simp add: handle_command_or_message_def)

lemma hcm_is_pv:
  "\<not> starts_with msg ''/join '' \<Longrightarrow> starts_with msg ''/pv '' \<Longrightarrow>
     handle_command_or_message self msg s g = switch_to_pv self (drop 4 msg) s g"
  by (simp add: handle_command_or_message_def)

lemma hcm_is_leave:
  "msg = ''/leave'' \<Longrightarrow>
     handle_command_or_message self msg s g =
       (s\<lparr>mode := Mode_None, active_room := [], active_pv := []\<rparr>,
        deliver self (''You left all contexts. Mode: none.'' @ [LF]) (leave_room self s g))"
  by hypsubst (simp add: handle_command_or_message_def leave_all_def starts_with_def)

lemma hcm_is_whereami:
  "msg = ''/whereami'' \<Longrightarrow> handle_command_or_message self msg s g = (s, report_whereami self s g)"
  by hypsubst (simp add: handle_command_or_message_def starts_with_def)

lemma hcm_is_rooms:
  "msg = ''/rooms'' \<Longrightarrow> handle_command_or_message self msg s g = (s, list_rooms self g)"
  by hypsubst (simp add: handle_command_or_message_def starts_with_def)

lemma hcm_is_users:
  "msg = ''/users'' \<Longrightarrow> handle_command_or_message self msg s g = (s, list_users self g)"
  by hypsubst (simp add: handle_command_or_message_def starts_with_def)

lemma hcm_is_chat:
  "\<not> starts_with msg ''/join '' \<Longrightarrow> \<not> starts_with msg ''/pv '' \<Longrightarrow> msg \<noteq> ''/leave'' \<Longrightarrow>
   msg \<noteq> ''/whereami'' \<Longrightarrow> msg \<noteq> ''/rooms'' \<Longrightarrow> msg \<noteq> ''/users'' \<Longrightarrow>
     handle_command_or_message self msg s g = (s, send_message self msg s g)"
  by (simp add: handle_command_or_message_def)

lemma report_whereami_wire: "\<exists>w. report_whereami self s g = g\<lparr>wire := w\<rparr>"
  by (cases "mode s") (auto simp: report_whereami_def deliver_def)

lemma list_rooms_wire: "\<exists>w. list_rooms self g = g\<lparr>wire := w\<rparr>"
  unfolding list_rooms_def deliver_def by (rule exI) (rule refl)

lemma list_users_wire: "\<exists>w. list_users self g = g\<lparr>wire := w\<rparr>"
  unfolding list_users_def deliver_def by (rule exI) (rule refl)

lemma hcm_cases [case_names join pv leave query chat]:
  assumes "starts_with msg ''/join '' \<Longrightarrow>
             handle_command_or_message self msg s g = switch_to_room self (drop 6 msg) s g \<Longrightarrow> P"
    and "handle_command_or_message self msg s g = switch_to_pv self (drop 4 msg) s g \<Longrightarrow> P"
    and "handle_command_or_message self msg s g =
           (s\<lparr>mode := Mode_None, active_room := [], active_pv := []\<rparr>,
            deliver self (''You left all contexts. Mode: none.'' @ [LF]) (leave_room self s g)) \<Longrightarrow> P"
    and "\<And>w. handle_command_or_message self msg s g = (s, g\<lparr>wire := w\<rparr>) \<Longrightarrow> P"
    and "handle_command_or_message self msg s g = (s, send_message self msg s g) \<Longrightarrow> P"
  shows P
proof (cases "starts_with msg ''/join ''")
  case True
  show P by (rule assms(1) [OF True hcm_is_join [OF True]])
next
  case nj: False
  show P
  proof (cases "starts_with msg ''/pv ''")
    case True
    show P by (rule assms(2) [OF hcm_is_pv [OF nj True]])
  next
    case np: False
    show P
    proof (cases "msg = ''/leave''")
      case True
      show P by (rule assms(3) [OF hcm_is_leave [OF True]])
    next
      case nl: False
      show P
      proof (cases "msg = ''/whereami''")
        case True
        obtain w where "report_whereami self s g = g\<lparr>wire := w\<rparr>"
          using report_whereami_wire by blast
        then have "handle_command_or_message self msg s g = (s, g\<lparr>wire := w\<rparr>)"
          using hcm_is_whereami [OF True, of self s g] by simp
        then show P by (rule assms(4))
      next
        case nw: False
        show P
        proof (cases "msg = ''/rooms''")
          case True
          obtain w where "list_rooms self g = g\<lparr>wire := w\<rparr>"
            using list_rooms_wire by blast
          then have "handle_command_or_message self msg s g = (s, g\<lparr>wire := w\<rparr>)"
            using hcm_is_rooms [OF True, of self s g] by simp
          then show P by (rule assms(4))
        next
          case nr: False
          show P
          proof (cases "msg = ''/users''")
            case True
            obtain w where "list_users self g = g\<lparr>wire := w\<rparr>"
              using list_users_wire by blast
            then have "handle_command_or_message self msg s g = (s, g\<lparr>wire := w\<rparr>)"
              using hcm_is_users [OF True, of self s g] by simp
            then show P by (rule assms(4))
          next
            case nu: False
            show P by (rule assms(5) [OF hcm_is_chat [OF nj np nl nw nr nu]])
          qed
        qed
      qed
    qed
  qed
qed

lemma do_read_cases [case_names empty naming join pv leave query chat]:
  assumes "do_read self chunk s g = (s, g) \<Longrightarrow> P"
    and "\<not> has_name s \<Longrightarrow> trim chunk \<noteq> [] \<Longrightarrow>
           do_read self chunk s g = handle_name self (trim chunk) s g \<Longrightarrow> P"
    and "\<And>room. has_name s \<Longrightarrow> room \<noteq> [] \<Longrightarrow>
           do_read self chunk s g = switch_to_room self room s g \<Longrightarrow> P"
    and "\<And>target. has_name s \<Longrightarrow> do_read self chunk s g = switch_to_pv self target s g \<Longrightarrow> P"
    and "has_name s \<Longrightarrow> do_read self chunk s g =
           (s\<lparr>mode := Mode_None, active_room := [], active_pv := []\<rparr>,
            deliver self (''You left all contexts. Mode: none.'' @ [LF]) (leave_room self s g)) \<Longrightarrow> P"
    and "\<And>w. has_name s \<Longrightarrow> do_read self chunk s g = (s, g\<lparr>wire := w\<rparr>) \<Longrightarrow> P"
    and "\<And>msg. has_name s \<Longrightarrow> do_read self chunk s g = (s, send_message self msg s g) \<Longrightarrow> P"
  shows P
proof (cases "trim chunk = []")
  case True
  then have "do_read self chunk s g = (s, g)" by (simp add: do_read_def)
  then show P by (rule assms(1))
next
  case ne: False
  show P
  proof (cases "has_name s")
    case False
    with ne have "do_read self chunk s g = handle_name self (trim chunk) s g"
      by (simp add: do_read_def)
    with False ne show P by (rule assms(2))
  next
    case hn: True
    with ne have dr: "do_read self chunk s g = handle_command_or_message self (trim chunk) s g"
      by (simp add: do_read_def)
    show P
    proof (cases self "trim chunk" s g rule: hcm_cases)
      case join
      from join(2) show P unfolding dr [symmetric] by (rule assms(3) [OF hn join_room_nonempty [OF join(1)]])
    next
      case pv
      then show P unfolding dr [symmetric] by (rule assms(4) [OF hn])
    next
      case leave
      then show P unfolding dr [symmetric] by (rule assms(5) [OF hn])
    next
      case (query w)
      then show P unfolding dr [symmetric] by (rule assms(6) [OF hn])
    next
      case chat
      then show P unfolding dr [symmetric] by (rule assms(7) [OF hn])
    qed
  qed
qed

section \<open>The invariants hold in every reachable state\<close>

lemma do_read_unnamed: "unnamed_ok s \<Longrightarrow> unnamed_ok (fst (do_read self chunk s g))"
  by (cases self chunk s g rule: do_read_cases)
     (simp_all add: unnamed_ok_def handle_name_fst switch_to_room_fst switch_to_pv_fst)

lemma cleanup_unnamed: "unnamed_ok s \<Longrightarrow> unnamed_ok (fst (cleanup self s g))"
  by (auto simp: unnamed_ok_def cleanup_fst)

lemma do_read_room_named:
  assumes N: "mode s = Mode_Room \<longrightarrow> active_room s \<noteq> []"
    and R: "mode (fst (do_read self chunk s g)) = Mode_Room"
  shows "active_room (fst (do_read self chunk s g)) \<noteq> []"
proof (cases self chunk s g rule: do_read_cases)
  case empty
  with N R show ?thesis by simp
next
  case naming
  with N R show ?thesis by (simp add: handle_name_fst split: if_splits)
next
  case (join room)
  then show ?thesis by (simp add: switch_to_room_fst)
next
  case (pv target)
  with N R show ?thesis by (simp add: switch_to_pv_fst split: if_splits)
next
  case leave
  with R show ?thesis by simp
next
  case (query w)
  with N R show ?thesis by simp
next
  case (chat msg)
  with N R show ?thesis by simp
qed

lemma do_read_rooms:
  assumes C: "(self \<in> room_members r g) = (mode s = Mode_Room \<and> active_room s = r)"
    and N: "mode s = Mode_Room \<longrightarrow> active_room s \<noteq> []"
  shows "room_members r (snd (do_read self chunk s g)) =
     (if mode (fst (do_read self chunk s g)) = Mode_Room \<and> active_room (fst (do_read self chunk s g)) = r
      then insert self (room_members r g) else room_members r g - {self})"
proof (cases self chunk s g rule: do_read_cases)
  case empty
  then show ?thesis using C by auto
next
  case naming
  then show ?thesis using C by (auto simp: handle_name_fst handle_name_members)
next
  case (join room)
  then show ?thesis using C N
    by (auto simp: switch_to_room_fst switch_to_room_members room_members_leave_room)
next
  case (pv target)
  then show ?thesis using C N
    by (auto simp: switch_to_pv_fst switch_to_pv_members room_members_leave_room)
next
  case leave
  then show ?thesis using C N by (auto simp: room_members_leave_room)
next
  case (query w)
  then show ?thesis using C by auto
next
  case (chat msg)
  then show ?thesis using C by (auto simp: send_message_members)
qed

lemma cleanup_rooms:
  assumes "(self \<in> room_members r g) = (mode s = Mode_Room \<and> active_room s = r)"
    and "mode s = Mode_Room \<longrightarrow> active_room s \<noteq> []"
  shows "room_members r (snd (cleanup self s g)) = room_members r g - {self}"
  using assms by (auto simp: cleanup_members room_members_leave_room)

lemma heap_on_object:
  "heap (on_object self f st) t =
     (if t = self then map_option (\<lambda>s. fst (f s (glob st))) (heap st self) else heap st t)"
  by (simp add: on_object_def split_def Let_def split: option.splits)

lemma glob_on_object:
  "glob (on_object self f st) =
     (case heap st self of None \<Rightarrow> glob st | Some s \<Rightarrow> snd (f s (glob st)))"
  by (simp add: on_object_def split_def Let_def split: option.splits)

lemma inv_unnamed_step: "inv_unnamed st \<Longrightarrow> inv_unnamed (step e st)"
proof (cases e)
  case (Accept self)
  assume "inv_unnamed st"
  with Accept show ?thesis by (auto simp: inv_unnamed_def new_session_def unnamed_ok_def)
next
  case (Recv self chunk)
  assume "inv_unnamed st"
  with Recv show ?thesis
    by (auto simp: inv_unnamed_def heap_on_object do_read_unnamed split: if_splits)
next
  case (Io_error self)
  assume "inv_unnamed st"
  with Io_error show ?thesis
    by (auto simp: inv_unnamed_def heap_on_object cleanup_unnamed split: if_splits)
qed

lemma inv_room_named_step: "inv_room_named st \<Longrightarrow> inv_room_named (step e st)"
proof (cases e)
  case (Accept self)
  assume "inv_room_named st"
  with Accept show ?thesis by (auto simp: inv_room_named_def new_session_def)
next
  case (Recv self chunk)
  assume "inv_room_named st"
  with Recv show ?thesis
    by (auto simp: inv_room_named_def heap_on_object do_read_room_named split: if_splits)
next
  case (Io_error self)
  assume "inv_room_named st"
  with Io_error show ?thesis
    by (auto simp: inv_room_named_def heap_on_object cleanup_fst split: if_splits)
qed

lemma do_read_users_mono:
  assumes "map_of (users_by_name g) k = Some v"
  shows "map_of (users_by_name (snd (do_read self chunk s g))) k = Some v"
proof (cases self chunk s g rule: do_read_cases)
  case empty
  with assms show ?thesis by simp
next
  case naming
  with assms show ?thesis
    by (auto simp: handle_name_users map_of_map_assign map_count_def)
next
  case (join room)
  with assms show ?thesis by simp
next
  case (pv target)
  with assms show ?thesis by simp
next
  case leave
  with assms show ?thesis by simp
next
  case (query w)
  with assms show ?thesis by simp
next
  case (chat msg)
  with assms show ?thesis by (auto simp: send_message_users)
qed

lemma do_read_registers:
  assumes "\<not> has_name s" and "has_name (fst (do_read self chunk s g))"
  shows "map_of (users_by_name (snd (do_read self chunk s g))) (name (fst (do_read self chunk s g)))
           = Some (Some self)"
proof (cases self chunk s g rule: do_read_cases)
  case naming
  with assms show ?thesis
    by (auto simp: handle_name_fst handle_name_users map_of_map_assign split: if_splits)
qed (use assms in simp_all)

lemma do_read_name: "has_name s \<Longrightarrow> name (fst (do_read self chunk s g)) = name s"
  by (cases self chunk s g rule: do_read_cases)
     (simp_all add: switch_to_room_fst switch_to_pv_fst)

lemma cleanup_users_others:
  assumes "map_of (users_by_name g) k = Some (Some t)" and "t \<noteq> self"
  shows "map_of (users_by_name (snd (cleanup self s g))) k = Some (Some t)"
  using assms
  by (auto simp: cleanup_users map_of_map_erase map_of_map_index map_at_def split: option.splits)

lemma inv_rooms_step:
  assumes I: "inv_rooms st" and N: "inv_room_named st" and E: "enabled e st"
  shows "inv_rooms (step e st)"
proof (cases e)
  case (Accept self)
  have "room_members r (glob (step e st)) = room_members r (glob st)" for r
    unfolding Accept by (simp add: start_def room_members_def)
  moreover from E Accept have "heap st self = None" by simp
  ultimately show ?thesis using I Accept
    by (auto simp: inv_rooms_def new_session_def)
next
  case (Recv self chunk)
  with E obtain s where s: "heap st self = Some s" by auto
  show ?thesis unfolding inv_rooms_def
  proof (intro allI)
    fix r t
    from I s have C: "(self \<in> room_members r (glob st)) = (mode s = Mode_Room \<and> active_room s = r)"
      by (simp add: inv_rooms_def)
    from N s have N': "mode s = Mode_Room \<longrightarrow> active_room s \<noteq> []"
      by (simp add: inv_room_named_def)
    from I have O: "(t \<in> room_members r (glob st)) =
        (\<exists>s'. heap st t = Some s' \<and> mode s' = Mode_Room \<and> active_room s' = r)"
      by (simp add: inv_rooms_def)
    show "(t \<in> room_members r (glob (step e st))) =
        (\<exists>s'. heap (step e st) t = Some s' \<and> mode s' = Mode_Room \<and> active_room s' = r)"
      unfolding Recv using s O do_read_rooms [OF C N', of chunk]
      by (simp add: heap_on_object glob_on_object)
  qed
next
  case (Io_error self)
  with E obtain s where s: "heap st self = Some s" by auto
  show ?thesis unfolding inv_rooms_def
  proof (intro allI)
    fix r t
    from I s have C: "(self \<in> room_members r (glob st)) = (mode s = Mode_Room \<and> active_room s = r)"
      by (simp add: inv_rooms_def)
    from N s have N': "mode s = Mode_Room \<longrightarrow> active_room s \<noteq> []"
      by (simp add: inv_room_named_def)
    from I have O: "(t \<in> room_members r (glob st)) =
        (\<exists>s'. heap st t = Some s' \<and> mode s' = Mode_Room \<and> active_room s' = r)"
      by (simp add: inv_rooms_def)
    show "(t \<in> room_members r (glob (step e st))) =
        (\<exists>s'. heap (step e st) t = Some s' \<and> mode s' = Mode_Room \<and> active_room s' = r)"
      unfolding Io_error using s O cleanup_rooms [OF C N']
      by (simp add: heap_on_object glob_on_object cleanup_fst)
  qed
qed

lemma inv_names_step:
  assumes I: "inv_names st" and E: "enabled e st"
  shows "inv_names (step e st)"
proof (cases e)
  case (Accept self)
  with I show ?thesis
    by (auto simp: inv_names_def start_def new_session_def set_set_insert)
next
  case (Recv self chunk)
  with E obtain s where s: "heap st self = Some s" by auto
  show ?thesis unfolding inv_names_def
  proof (intro allI impI)
    fix t s'
    assume t: "t \<in> set (sessions (glob (step e st)))"
      and h: "heap (step e st) t = Some s'" and n: "has_name s'"
    from t s Recv have t': "t \<in> set (sessions (glob st))" by (simp add: glob_on_object)
    show "map_of (users_by_name (glob (step e st))) (name s') = Some (Some t)"
    proof (cases "t = self")
      case False
      with h Recv have "heap st t = Some s'" by (simp add: heap_on_object)
      with I t' n have "map_of (users_by_name (glob st)) (name s') = Some (Some t)"
        by (simp add: inv_names_def)
      then show ?thesis unfolding Recv using s
        by (simp add: glob_on_object do_read_users_mono)
    next
      case True
      with h s Recv have s': "s' = fst (do_read self chunk s (glob st))"
        by (simp add: heap_on_object)
      show ?thesis
      proof (cases "has_name s")
        case True
        with I t' s \<open>t = self\<close> have "map_of (users_by_name (glob st)) (name s) = Some (Some t)"
          by (simp add: inv_names_def)
        then show ?thesis unfolding Recv using s True s'
          by (simp add: glob_on_object do_read_users_mono do_read_name)
      next
        case False
        from do_read_registers [OF False] n s' show ?thesis unfolding Recv using s \<open>t = self\<close>
          by (simp add: glob_on_object)
      qed
    qed
  qed
next
  case (Io_error self)
  with E obtain s where s: "heap st self = Some s" by auto
  show ?thesis unfolding inv_names_def
  proof (intro allI impI)
    fix t s'
    assume t: "t \<in> set (sessions (glob (step e st)))"
      and h: "heap (step e st) t = Some s'" and n: "has_name s'"
    from t s Io_error have t': "t \<in> set (sessions (glob st))" "t \<noteq> self"
      by (simp_all add: glob_on_object cleanup_sessions set_set_erase)
    with h Io_error have "heap st t = Some s'" by (simp add: heap_on_object)
    with I t' n have "map_of (users_by_name (glob st)) (name s') = Some (Some t)"
      by (simp add: inv_names_def)
    then show "map_of (users_by_name (glob (step e st))) (name s') = Some (Some t)"
      unfolding Io_error using s t'(2)
      by (simp add: glob_on_object cleanup_users_others)
  qed
qed

lemma inv_init: "inv_rooms init" "inv_room_named init" "inv_unnamed init" "inv_names init"
  by (simp_all add: inv_rooms_def inv_room_named_def inv_unnamed_def inv_names_def init_def
        room_members_def)

lemma reachable_inv:
  "reachable st \<Longrightarrow> inv_rooms st \<and> inv_room_named st \<and> inv_unnamed st \<and> inv_names st"
proof (induction rule: reachable.induct)
  case reachable_init
  show ?case by (simp add: inv_init)
next
  case (reachable_step st e)
  then show ?case
    by (simp add: inv_rooms_step inv_room_named_step inv_unnamed_step inv_names_step)
qed

lemma reachable_run: "reachable st \<Longrightarrow> valid_run es st \<Longrightarrow> reachable (run es st)"
  by (induction es arbitrary: st) (simp_all add: reachable_step)

lemma hcm_pv_command:
  "handle_command_or_message self (''/pv '' @ target) s g = switch_to_pv self target s g"
  by (simp add: handle_command_or_message_def starts_with_def)

lemma do_read_pv_command:
  assumes "has_name s" and "trim chunk = ''/pv '' @ target"
  shows "do_read self chunk s g = switch_to_pv self target s g"
proof -
  have "''/pv '' @ target \<noteq> []" by simp
  then have "trim chunk \<noteq> []" unfolding assms(2) .
  with assms(1) have "do_read self chunk s g = handle_command_or_message self (trim chunk) s g"
    by (simp add: do_read_def)
  then show ?thesis unfolding assms(2) hcm_pv_command .
qed

lemma set_strip_whitespace: "set (strip_whitespace s) \<subseteq> set s"
proof
  fix c assume "c \<in> set (strip_whitespace s)"
  then have "c \<in> set (dropWhile isspace (rev (dropWhile isspace s)))"
    by (simp add: strip_whitespace_def)
  then have "c \<in> set (rev (dropWhile isspace s))" by (rule set_dropWhileD)
  then have "c \<in> set (dropWhile isspace s)" by simp
  then show "c \<in> set s" by (rule set_dropWhileD)
qed

lemma trim_strip_whitespace:
  "trim s = strip_whitespace (filter (\<lambda>c. c \<noteq> CR \<and> c \<noteq> LF) s)"
proof -
  have "filter (\<lambda>c. c \<noteq> LF) (filter (\<lambda>c. c \<noteq> CR) s) = filter (\<lambda>c. c \<noteq> CR \<and> c \<noteq> LF) s"
    by (induction s) simp_all
  then show ?thesis by (simp add: trim_def strip_whitespace_def)
qed

lemma step_empty_chunk: "trim chunk = [] \<Longrightarrow> step (Recv self chunk) st = st"
proof (cases "heap st self")
  case None
  then show ?thesis by (simp add: on_object_def)
next
  case (Some s)
  assume "trim chunk = []"
  moreover have "(heap st)(self \<mapsto> s) = heap st" using Some by (rule map_upd_triv)
  ultimately show ?thesis using Some by (simp add: on_object_def do_read_def)
qed

lemma sent_append [simp]: "wire g' = wire g @ ws \<Longrightarrow> sent g g' = ws"
  by (simp add: sent_def)

lemma map_at_map_assign: "map_at k d (map_assign k v m) = v"
  by (simp add: map_at_def map_of_map_assign)

lemma leave_room_wire:
  "wire (leave_room self s g) = wire g @
     (if mode s = Mode_Room \<and> active_room s \<noteq> []
      then map (\<lambda>t. (t, colored_name s @ '' left room '' @ active_room s @ ''.'' @ [LF]))
             (set_erase self (map_at (active_room s) [] (rooms g)))
      else [])"
proof (cases "mode s = Mode_Room \<and> active_room s \<noteq> []")
  case False
  then show ?thesis by (auto simp: leave_room_def)
next
  case True
  show ?thesis
  proof (cases "map_of (rooms g) (active_room s)")
    case None
    with True show ?thesis by (simp add: leave_room_def map_at_def set_erase_def)
  next
    case (Some ms)
    then have "map_at (active_room s) [] (rooms g) = ms" by (simp add: map_at_def)
    with True Some show ?thesis
      by (simp add: leave_room_def broadcast_room_eq map_at_map_assign)
  qed
qed










lemma handle_name_wire:
  "\<not> map_count nm (users_by_name g) \<Longrightarrow>
     wire (snd (handle_name self nm s g)) = wire g @
       (self, ''Hi '' @ colored_name (s\<lparr>name := nm\<rparr>) @ ''! Commands: ''
                @ ''/join <room>, /pv <user>, /leave, /whereami, /rooms, /users'' @ [LF])
       # map (\<lambda>t. (t, colored_name (s\<lparr>name := nm\<rparr>) @ '' joined the server.'' @ [LF])) (sessions g)"
  by (simp add: handle_name_def Let_def broadcast_all_eq colored_name_def)

lemma cleanup_wire:
  "wire (snd (cleanup self s g)) = wire (leave_room self s g) @
     (if has_name s
      then map (\<lambda>t. (t, colored_name s @ '' left the server.'' @ [LF])) (set_erase self (sessions g))
      else [])"
  by (simp add: cleanup_def Let_def broadcast_all_eq leave_room_wire colored_name_def)

lemma send_message_room_wire:
  "mode s = Mode_Room \<and> active_room s \<noteq> [] \<Longrightarrow>
     wire (send_message self text s g) = wire g @
       map (\<lambda>t. (t, colored_name s @ '' ['' @ active_room s @ '']: '' @ text @ [LF]))
         (filter (\<lambda>t. t \<noteq> self) (map_at (active_room s) [] (rooms g)))"
  by (simp add: send_message_def fold_deliver_others)

lemma switch_to_room_wire:
  "wire (snd (switch_to_room self room s g)) = wire (leave_room self s g) @
     map (\<lambda>t. (t, colored_name s @ '' joined room '' @ room @ ''.'' @ [LF]))
       (set_insert self (map_at room [] (rooms (leave_room self s g))))
     @ [(self, ''You are now in room '' @ room @ ''. Type to chat here.'' @ [LF])]"
  by (simp add: switch_to_room_def leave_all_def Let_def broadcast_room_eq map_at_map_assign
        colored_name_def)

section \<open>Names among the sessions of the session set, and the outcomes of a private-chat command\<close>

text \<open>
  Two sessions that are both in \<open>sessions\<close> never hold the same name, and a first line
  is either refused, when its name is a key of \<open>users_by_name\<close>, or registered.
\<close>

lemma sessions_names_unique:
  assumes "reachable st"
  shows "(a \<in> set (sessions (glob st)) \<and> b \<in> set (sessions (glob st))
            \<and> heap st a = Some sa \<and> heap st b = Some sb
            \<and> has_name sa \<and> has_name sb \<and> name sa = name sb \<longrightarrow> a = b)
       \<and> (\<not> has_name s \<and> trim chunk \<noteq> [] \<and> map_count (trim chunk) (users_by_name (glob st)) \<longrightarrow>
            do_read self chunk s (glob st)
              = (s, (glob st)\<lparr>wire := wire (glob st) @ [(self, ''Name already taken. Try another: '')]\<rparr>))
       \<and> (\<not> has_name s \<and> trim chunk \<noteq> [] \<and> \<not> map_count (trim chunk) (users_by_name (glob st)) \<longrightarrow>
            fst (do_read self chunk s (glob st)) = s\<lparr>name := trim chunk, has_name := True\<rparr>
            \<and> map_of (users_by_name (snd (do_read self chunk s (glob st)))) (trim chunk) = Some (Some self))"
proof (intro conjI impI)
  assume h: "a \<in> set (sessions (glob st)) \<and> b \<in> set (sessions (glob st))
            \<and> heap st a = Some sa \<and> heap st b = Some sb
            \<and> has_name sa \<and> has_name sb \<and> name sa = name sb"
  from reachable_inv [OF assms] have i: "inv_names st" by simp
  from h have a: "a \<in> set (sessions (glob st))" "heap st a = Some sa" "has_name sa"
    and b: "b \<in> set (sessions (glob st))" "heap st b = Some sb" "has_name sb"
    and e: "name sa = name sb" by blast+
  from i a have "map_of (users_by_name (glob st)) (name sa) = Some (Some a)"
    unfolding inv_names_def by blast
  moreover from i b have "map_of (users_by_name (glob st)) (name sb) = Some (Some b)"
    unfolding inv_names_def by blast
  ultimately show "a = b" using e by simp
next
  assume "\<not> has_name s \<and> trim chunk \<noteq> [] \<and> map_count (trim chunk) (users_by_name (glob st))"
  then show "do_read self chunk s (glob st)
              = (s, (glob st)\<lparr>wire := wire (glob st) @ [(self, ''Name already taken. Try another: '')]\<rparr>)"
    by (simp add: do_read_def handle_name_def deliver_def)
next
  assume "\<not> has_name s \<and> trim chunk \<noteq> [] \<and> \<not> map_count (trim chunk) (users_by_name (glob st))"
  then show "fst (do_read self chunk s (glob st)) = s\<lparr>name := trim chunk, has_name := True\<rparr>"
    by (simp add: do_read_def handle_name_fst)
next
  assume "\<not> has_name s \<and> trim chunk \<noteq> [] \<and> \<not> map_count (trim chunk) (users_by_name (glob st))"
  then show "map_of (users_by_name (snd (do_read self chunk s (glob st)))) (trim chunk) = Some (Some self)"
    by (simp add: do_read_def handle_name_users map_of_map_assign)
qed

text \<open>
  A \<open>/pv\<close> command is refused when its target is no key of \<open>users_by_name\<close> or is the
  name of the session, and then changes nothing but the wire. Otherwise the session is
  erased from its room, the members that remain are told, and the mode and the peer are
  set.
\<close>

lemma switch_to_pv_valid:
  assumes "map_count target (users_by_name g)" and "target \<noteq> name s"
  shows "switch_to_pv self target s g =
           (s\<lparr>mode := Mode_Pv, active_room := [], active_pv := target\<rparr>,
            deliver self (''Private chat with '' @ target @ '' started. Type to chat.'' @ [LF])
              (leave_room self s g))"
  using assms by (simp add: switch_to_pv_def leave_all_def)

lemma pv_command_outcomes:
  assumes "has_name s" and "trim chunk = ''/pv '' @ target"
  shows "(\<not> map_count target (users_by_name g) \<longrightarrow>
            do_read self chunk s g = (s, g\<lparr>wire := wire g @ [(self, ''User not found.'' @ [LF])]\<rparr>))
       \<and> (map_count target (users_by_name g) \<and> target = name s \<longrightarrow>
            do_read self chunk s g
              = (s, g\<lparr>wire := wire g @ [(self, ''You cannot start PV with yourself.'' @ [LF])]\<rparr>))
       \<and> (map_count target (users_by_name g) \<and> target \<noteq> name s \<longrightarrow>
            fst (do_read self chunk s g) = s\<lparr>mode := Mode_Pv, active_room := [], active_pv := target\<rparr>
            \<and> room_members r (snd (do_read self chunk s g)) =
                (if mode s = Mode_Room \<and> active_room s \<noteq> [] \<and> r = active_room s
                 then room_members r g - {self} else room_members r g)
            \<and> sent g (snd (do_read self chunk s g)) =
                (if mode s = Mode_Room \<and> active_room s \<noteq> []
                 then map (\<lambda>t. (t, colored_name s @ '' left room '' @ active_room s @ ''.'' @ [LF]))
                        (set_erase self (map_at (active_room s) [] (rooms g)))
                 else [])
                @ [(self, ''Private chat with '' @ target @ '' started. Type to chat.'' @ [LF])]
            \<and> users_by_name (snd (do_read self chunk s g)) = users_by_name g
            \<and> sessions (snd (do_read self chunk s g)) = sessions g)"
proof (intro conjI impI)
  assume "\<not> map_count target (users_by_name g)"
  then show "do_read self chunk s g = (s, g\<lparr>wire := wire g @ [(self, ''User not found.'' @ [LF])]\<rparr>)"
    unfolding do_read_pv_command [OF assms] by (simp add: switch_to_pv_def deliver_def)
next
  assume "map_count target (users_by_name g) \<and> target = name s"
  then show "do_read self chunk s g
              = (s, g\<lparr>wire := wire g @ [(self, ''You cannot start PV with yourself.'' @ [LF])]\<rparr>)"
    unfolding do_read_pv_command [OF assms] by (auto simp: switch_to_pv_def deliver_def)
next
  assume a: "map_count target (users_by_name g) \<and> target \<noteq> name s"
  then have e: "do_read self chunk s g =
           (s\<lparr>mode := Mode_Pv, active_room := [], active_pv := target\<rparr>,
            deliver self (''Private chat with '' @ target @ '' started. Type to chat.'' @ [LF])
              (leave_room self s g))"
    unfolding do_read_pv_command [OF assms] by (simp add: switch_to_pv_valid)
  show "fst (do_read self chunk s g) = s\<lparr>mode := Mode_Pv, active_room := [], active_pv := target\<rparr>"
    unfolding e by simp
  show "room_members r (snd (do_read self chunk s g)) =
                (if mode s = Mode_Room \<and> active_room s \<noteq> [] \<and> r = active_room s
                 then room_members r g - {self} else room_members r g)"
    unfolding e by (simp add: room_members_leave_room)
  show "sent g (snd (do_read self chunk s g)) =
                (if mode s = Mode_Room \<and> active_room s \<noteq> []
                 then map (\<lambda>t. (t, colored_name s @ '' left room '' @ active_room s @ ''.'' @ [LF]))
                        (set_erase self (map_at (active_room s) [] (rooms g)))
                 else [])
                @ [(self, ''Private chat with '' @ target @ '' started. Type to chat.'' @ [LF])]"
    unfolding e by (rule sent_append) (simp add: leave_room_wire)
  show "users_by_name (snd (do_read self chunk s g)) = users_by_name g"
    unfolding e by simp
  show "sessions (snd (do_read self chunk s g)) = sessions g"
    unfolding e by simp
qed

section \<open>The claims\<close>

subsection \<open>C1: rooms whose last member has left\<close>




subsection \<open>C2: the keys of users_by_name\<close>

text \<open>
  Claim C2 says that every key of \<open>users_by_name\<close> maps to a live session of that
  name, and that a private message to a peer that has disconnected leaves no entry for
  the peer. The code at a concrete run: \<open>a\<close> opens a private chat with \<open>b\<close>, \<open>b\<close>
  disconnects (its entry is erased), \<open>a\<close> sends a line. \<open>send_message\<close> reads
  \<open>users_by_name[active_pv_]\<close>, which inserts the key \<open>b\<close> with a null pointer; the
  sender is told "User went offline.", and a new connection that asks for the name
  \<open>b\<close> is told that the name is taken.
\<close>

theorem offline_peer_entry_inserted:
  "reachable (run (trace_pv_offline @ [Recv 1 ''hi'']) init)
   \<and> sessions (glob (run trace_pv_offline init)) = [1]
   \<and> users_by_name (glob (run trace_pv_offline init)) = [(''a'', Some 1)]
   \<and> users_by_name (glob (run (trace_pv_offline @ [Recv 1 ''hi'']) init)) = [(''a'', Some 1), (''b'', None)]
   \<and> sent (glob (run trace_pv_offline init)) (glob (run (trace_pv_offline @ [Recv 1 ''hi'']) init))
       = [(1, ''User went offline.'' @ [LF])]
   \<and> sent (glob (run (trace_pv_offline @ [Recv 1 ''hi'']) init))
         (glob (run (trace_pv_offline @ [Recv 1 ''hi'', Accept 3, Recv 3 ''b'']) init))
       = [(3, ''Welcome! Please enter your name: ''), (3, ''Name already taken. Try another: '')]"
proof -
  have v: "valid_run (trace_pv_offline @ [Recv 1 ''hi'']) init"
    unfolding trace_pv_offline_def by code_simp
  have r: "reachable (run (trace_pv_offline @ [Recv 1 ''hi'']) init)"
    by (rule reachable_run [OF reachable_init v])
  have "sessions (glob (run trace_pv_offline init)) = [1]"
    unfolding trace_pv_offline_def by code_simp
  moreover have "users_by_name (glob (run trace_pv_offline init)) = [(''a'', Some 1)]"
    unfolding trace_pv_offline_def by code_simp
  moreover have "users_by_name (glob (run (trace_pv_offline @ [Recv 1 ''hi'']) init))
      = [(''a'', Some 1), (''b'', None)]"
    unfolding trace_pv_offline_def by code_simp
  moreover have "sent (glob (run trace_pv_offline init)) (glob (run (trace_pv_offline @ [Recv 1 ''hi'']) init))
       = [(1, ''User went offline.'' @ [LF])]"
    unfolding trace_pv_offline_def by code_simp
  moreover have "sent (glob (run (trace_pv_offline @ [Recv 1 ''hi'']) init))
         (glob (run (trace_pv_offline @ [Recv 1 ''hi'', Accept 3, Recv 3 ''b'']) init))
       = [(3, ''Welcome! Please enter your name: ''), (3, ''Name already taken. Try another: '')]"
    unfolding trace_pv_offline_def by code_simp
  ultimately show ?thesis using r by blast
qed

subsection \<open>C3: cleanup run twice\<close>

text \<open>
  Claim C3 says that a second cleanup of a session changes nothing and sends nothing.
  The code at a concrete run: \<open>a\<close> and \<open>b\<close> are named, and two I/O errors of \<open>a\<close>
  complete (a failed read and a failed write, or two failed writes). The first cleanup
  erases \<open>a\<close> from \<open>users_by_name\<close> and tells \<open>b\<close> that \<open>a\<close> left the server; the
  second one inserts the key \<open>a\<close> with a null pointer and tells \<open>b\<close> again.
\<close>

theorem cleanup_twice_differs:
  "reachable (run (trace_ab @ [Io_error 1, Io_error 1]) init)
   \<and> users_by_name (glob (run (trace_ab @ [Io_error 1]) init)) = [(''b'', Some 2)]
   \<and> users_by_name (glob (run (trace_ab @ [Io_error 1, Io_error 1]) init)) = [(''a'', None), (''b'', Some 2)]
   \<and> sent (glob (run trace_ab init)) (glob (run (trace_ab @ [Io_error 1]) init))
       = [(2, ESC # ''[36ma'' @ ESC # ''[0m left the server.'' @ [LF])]
   \<and> sent (glob (run (trace_ab @ [Io_error 1]) init)) (glob (run (trace_ab @ [Io_error 1, Io_error 1]) init))
       = [(2, ESC # ''[36ma'' @ ESC # ''[0m left the server.'' @ [LF])]"
proof -
  have v: "valid_run (trace_ab @ [Io_error 1, Io_error 1]) init"
    unfolding trace_ab_def by code_simp
  have r: "reachable (run (trace_ab @ [Io_error 1, Io_error 1]) init)"
    by (rule reachable_run [OF reachable_init v])
  have "users_by_name (glob (run (trace_ab @ [Io_error 1]) init)) = [(''b'', Some 2)]"
    unfolding trace_ab_def by code_simp
  moreover have "users_by_name (glob (run (trace_ab @ [Io_error 1, Io_error 1]) init))
      = [(''a'', None), (''b'', Some 2)]"
    unfolding trace_ab_def by code_simp
  moreover have "sent (glob (run trace_ab init)) (glob (run (trace_ab @ [Io_error 1]) init))
       = [(2, ESC # ''[36ma'' @ ESC # ''[0m left the server.'' @ [LF])]"
    unfolding trace_ab_def by code_simp
  moreover have "sent (glob (run (trace_ab @ [Io_error 1]) init)) (glob (run (trace_ab @ [Io_error 1, Io_error 1]) init))
       = [(2, ESC # ''[36ma'' @ ESC # ''[0m left the server.'' @ [LF])]"
    unfolding trace_ab_def by code_simp
  ultimately show ?thesis using r by blast
qed

subsection \<open>C4: who receives a server-wide broadcast\<close>

text \<open>
  The claim as written (only named sessions receive a broadcast) fails: session 2 has
  connected and has no name, it is no value of \<open>users_by_name\<close>, and it receives
  "Carol joined the server." when session 1 takes its name.
\<close>

theorem unnamed_broadcast_counterexample:
  "reachable (run trace_carol init)
   \<and> map_option has_name (heap (run trace_carol init) 2) = Some False
   \<and> users_by_name (glob (run trace_carol init)) = [(''Carol'', Some 1)]
   \<and> sent (glob (run [Accept 1, Accept 2] init)) (glob (run trace_carol init))
       = [(1, ''Hi '' @ ESC # ''[36mCarol'' @ ESC # ''[0m! Commands: ''
              @ ''/join <room>, /pv <user>, /leave, /whereami, /rooms, /users'' @ [LF]),
          (1, ESC # ''[36mCarol'' @ ESC # ''[0m joined the server.'' @ [LF]),
          (2, ESC # ''[36mCarol'' @ ESC # ''[0m joined the server.'' @ [LF])]"
proof -
  have v: "valid_run trace_carol init" unfolding trace_carol_def by code_simp
  have r: "reachable (run trace_carol init)" by (rule reachable_run [OF reachable_init v])
  have "map_option has_name (heap (run trace_carol init) 2) = Some False"
    unfolding trace_carol_def by code_simp
  moreover have "users_by_name (glob (run trace_carol init)) = [(''Carol'', Some 1)]"
    unfolding trace_carol_def by code_simp
  moreover have "sent (glob (run [Accept 1, Accept 2] init)) (glob (run trace_carol init))
       = [(1, ''Hi '' @ ESC # ''[36mCarol'' @ ESC # ''[0m! Commands: ''
              @ ''/join <room>, /pv <user>, /leave, /whereami, /rooms, /users'' @ [LF]),
          (1, ESC # ''[36mCarol'' @ ESC # ''[0m joined the server.'' @ [LF]),
          (2, ESC # ''[36mCarol'' @ ESC # ''[0m joined the server.'' @ [LF])]"
    unfolding trace_carol_def by code_simp
  ultimately show ?thesis using r by blast
qed

text \<open>
  Claim C4, as amended. A server-wide broadcast is written to the sessions of
  \<open>sessions\<close>, named or not, and to no other: the "joined the server." notice of a
  successful naming goes to all of \<open>sessions\<close> (after the greeting to the session
  itself), and the "left the server." notice of the cleanup of a named session goes to
  what is left of \<open>sessions\<close> once the session is erased from it. The accept handler
  puts the new session, which has no name, into \<open>sessions\<close>; cleanup erases a session
  from it, and a read never changes it. So a session that has not set a name receives a
  broadcast exactly when it is in \<open>sessions\<close> at that moment.
\<close>

theorem broadcast_reaches_sessions:
  "broadcast_all msg g = g\<lparr>wire := wire g @ map (\<lambda>t. (t, msg)) (sessions g)\<rparr>
   \<and> fst ` set (sent g (broadcast_all msg g)) = set (sessions g)
   \<and> (\<not> map_count nm (users_by_name g) \<longrightarrow>
        sent g (snd (handle_name self nm s g)) =
          (self, ''Hi '' @ colored_name (s\<lparr>name := nm\<rparr>) @ ''! Commands: ''
                   @ ''/join <room>, /pv <user>, /leave, /whereami, /rooms, /users'' @ [LF])
          # map (\<lambda>t. (t, colored_name (s\<lparr>name := nm\<rparr>) @ '' joined the server.'' @ [LF])) (sessions g))
   \<and> (has_name s \<longrightarrow>
        sent (leave_room self s g) (snd (cleanup self s g)) =
          map (\<lambda>t. (t, colored_name s @ '' left the server.'' @ [LF])) (set_erase self (sessions g)))
   \<and> sessions (glob (step (Accept self) st)) = set_insert self (sessions (glob st))
   \<and> map_option has_name (heap (step (Accept self) st) self) = Some False
   \<and> sessions (snd (cleanup self s g)) = set_erase self (sessions g)
   \<and> sessions (snd (do_read self chunk s g)) = sessions g"
proof -
  have "sent g (broadcast_all msg g) = map (\<lambda>t. (t, msg)) (sessions g)"
    by (rule sent_append) (simp add: broadcast_all_eq)
  then have "fst ` set (sent g (broadcast_all msg g)) = set (sessions g)"
    by (simp add: image_image)
  moreover have "sessions (glob (step (Accept self) st)) = set_insert self (sessions (glob st))"
    by (simp add: start_def)
  moreover have "map_option has_name (heap (step (Accept self) st) self) = Some False"
    by (simp add: new_session_def)
  ultimately show ?thesis
    by (simp add: broadcast_all_eq handle_name_wire cleanup_wire cleanup_sessions del: step.simps)
qed

theorem broadcast_reaches_sessions_witness:
  "\<not> map_count ''Carol'' (users_by_name (glob (run trace_two init)))
   \<and> sessions (glob (run trace_two init)) = [1, 2]
   \<and> map_option has_name (heap (run trace_two init) 2) = Some False
   \<and> map (fst) (sent (glob (run trace_two init))
         (snd (handle_name 1 ''Carol'' (the (heap (run trace_two init) 1)) (glob (run trace_two init)))))
       = [1, 1, 2]
   \<and> \<not> map_count ''Carol'' (users_by_name (glob (run (trace_two @ [Io_error 2]) init)))
   \<and> sessions (glob (run (trace_two @ [Io_error 2]) init)) = [1]
   \<and> map_option has_name (heap (run (trace_two @ [Io_error 2]) init) 2) = Some False
   \<and> map (fst) (sent (glob (run (trace_two @ [Io_error 2]) init))
         (snd (handle_name 1 ''Carol'' (the (heap (run (trace_two @ [Io_error 2]) init) 1))
            (glob (run (trace_two @ [Io_error 2]) init)))))
       = [1, 1]
   \<and> has_name (the (heap (run trace_carol init) 1))
   \<and> map fst (sent (leave_room 1 (the (heap (run trace_carol init) 1)) (glob (run trace_carol init)))
         (snd (cleanup 1 (the (heap (run trace_carol init) 1)) (glob (run trace_carol init)))))
       = [2]"
proof -
  have c: "\<not> map_count ''Carol'' (users_by_name (glob (run trace_two init)))"
    unfolding trace_two_def by code_simp
  have s: "sessions (glob (run trace_two init)) = [1, 2]" unfolding trace_two_def by code_simp
  have u: "map_option has_name (heap (run trace_two init) 2) = Some False"
    unfolding trace_two_def by code_simp
  have c0: "\<not> map_count ''Carol'' (users_by_name (glob (run (trace_two @ [Io_error 2]) init)))"
    unfolding trace_two_def by code_simp
  have s0: "sessions (glob (run (trace_two @ [Io_error 2]) init)) = [1]"
    unfolding trace_two_def by code_simp
  have u0: "map_option has_name (heap (run (trace_two @ [Io_error 2]) init) 2) = Some False"
    unfolding trace_two_def by code_simp
  have n: "has_name (the (heap (run trace_carol init) 1))" unfolding trace_carol_def by code_simp
  have s': "set_erase 1 (sessions (glob (run trace_carol init))) = [2]"
    unfolding trace_carol_def by code_simp
  from broadcast_reaches_sessions [of _ "glob (run trace_two init)" "''Carol''" 1
      "the (heap (run trace_two init) 1)"] c
  have a: "sent (glob (run trace_two init))
         (snd (handle_name 1 ''Carol'' (the (heap (run trace_two init) 1)) (glob (run trace_two init))))
       = (1, ''Hi '' @ colored_name ((the (heap (run trace_two init) 1))\<lparr>name := ''Carol''\<rparr>)
                @ ''! Commands: '' @ ''/join <room>, /pv <user>, /leave, /whereami, /rooms, /users'' @ [LF])
         # map (\<lambda>t. (t, colored_name ((the (heap (run trace_two init) 1))\<lparr>name := ''Carol''\<rparr>)
                @ '' joined the server.'' @ [LF])) (sessions (glob (run trace_two init)))"
    by blast
  have 1: "map (fst) (sent (glob (run trace_two init))
         (snd (handle_name 1 ''Carol'' (the (heap (run trace_two init) 1)) (glob (run trace_two init)))))
       = [1, 1, 2]"
    unfolding a s by simp
  from broadcast_reaches_sessions [of _ "glob (run (trace_two @ [Io_error 2]) init)" "''Carol''" 1
      "the (heap (run (trace_two @ [Io_error 2]) init) 1)"] c0
  have a0: "sent (glob (run (trace_two @ [Io_error 2]) init))
         (snd (handle_name 1 ''Carol'' (the (heap (run (trace_two @ [Io_error 2]) init) 1))
            (glob (run (trace_two @ [Io_error 2]) init))))
       = (1, ''Hi '' @ colored_name ((the (heap (run (trace_two @ [Io_error 2]) init) 1))\<lparr>name := ''Carol''\<rparr>)
                @ ''! Commands: '' @ ''/join <room>, /pv <user>, /leave, /whereami, /rooms, /users'' @ [LF])
         # map (\<lambda>t. (t, colored_name ((the (heap (run (trace_two @ [Io_error 2]) init) 1))\<lparr>name := ''Carol''\<rparr>)
                @ '' joined the server.'' @ [LF])) (sessions (glob (run (trace_two @ [Io_error 2]) init)))"
    by blast
  have 10: "map (fst) (sent (glob (run (trace_two @ [Io_error 2]) init))
         (snd (handle_name 1 ''Carol'' (the (heap (run (trace_two @ [Io_error 2]) init) 1))
            (glob (run (trace_two @ [Io_error 2]) init)))))
       = [1, 1]"
    unfolding a0 s0 by simp
  from broadcast_reaches_sessions [of _ "glob (run trace_carol init)" _ 1
      "the (heap (run trace_carol init) 1)"] n
  have b: "sent (leave_room 1 (the (heap (run trace_carol init) 1)) (glob (run trace_carol init)))
         (snd (cleanup 1 (the (heap (run trace_carol init) 1)) (glob (run trace_carol init))))
       = map (\<lambda>t. (t, colored_name (the (heap (run trace_carol init) 1)) @ '' left the server.'' @ [LF]))
           (set_erase 1 (sessions (glob (run trace_carol init))))"
    by blast
  have 2: "map fst (sent (leave_room 1 (the (heap (run trace_carol init) 1)) (glob (run trace_carol init)))
         (snd (cleanup 1 (the (heap (run trace_carol init) 1)) (glob (run trace_carol init)))))
       = [2]"
    unfolding b s' by simp
  from c s u 1 c0 s0 u0 10 n 2 show ?thesis by blast
qed

subsection \<open>C5: the actor and its own room notices\<close>

text \<open>
  The claim as written (the actor never receives its own "joined room" notice) fails:
  Alice joins \<open>lobby\<close> and the first write of that handler is her own notice, addressed
  to her.
\<close>

theorem join_notice_counterexample:
  "reachable (run trace_lobby init)
   \<and> sent (glob (run [Accept 1, Recv 1 ''Alice''] init)) (glob (run trace_lobby init))
       = [(1, ESC # ''[36mAlice'' @ ESC # ''[0m joined room lobby.'' @ [LF]),
          (1, ''You are now in room lobby. Type to chat here.'' @ [LF])]"
proof -
  have v: "valid_run trace_lobby init" unfolding trace_lobby_def by code_simp
  have r: "reachable (run trace_lobby init)" by (rule reachable_run [OF reachable_init v])
  have "sent (glob (run [Accept 1, Recv 1 ''Alice''] init)) (glob (run trace_lobby init))
       = [(1, ESC # ''[36mAlice'' @ ESC # ''[0m joined room lobby.'' @ [LF]),
          (1, ''You are now in room lobby. Type to chat here.'' @ [LF])]"
    unfolding trace_lobby_def by code_simp
  with r show ?thesis by blast
qed

text \<open>
  Claim C5, as amended. The "left room" notice of a departure goes to the members of the
  room other than the actor, and a chat line typed in a room goes to the members other
  than the sender: the actor is never among the recipients of either. The "joined room"
  notice of \<open>/join\<close> goes to every member of the room after the join, the actor
  included, followed by the acknowledgement to the actor.
\<close>

theorem room_notice_recipients:
  "sent g (leave_room self s g) =
     (if mode s = Mode_Room \<and> active_room s \<noteq> []
      then map (\<lambda>t. (t, colored_name s @ '' left room '' @ active_room s @ ''.'' @ [LF]))
             (set_erase self (map_at (active_room s) [] (rooms g)))
      else [])
   \<and> self \<notin> fst ` set (sent g (leave_room self s g))
   \<and> (mode s = Mode_Room \<and> active_room s \<noteq> [] \<longrightarrow>
        sent g (send_message self text s g) =
          map (\<lambda>t. (t, colored_name s @ '' ['' @ active_room s @ '']: '' @ text @ [LF]))
            (filter (\<lambda>t. t \<noteq> self) (map_at (active_room s) [] (rooms g)))
        \<and> self \<notin> fst ` set (sent g (send_message self text s g)))
   \<and> sent (leave_room self s g) (snd (switch_to_room self room s g)) =
        map (\<lambda>t. (t, colored_name s @ '' joined room '' @ room @ ''.'' @ [LF]))
          (set_insert self (map_at room [] (rooms (leave_room self s g))))
        @ [(self, ''You are now in room '' @ room @ ''. Type to chat here.'' @ [LF])]
   \<and> (self, colored_name s @ '' joined room '' @ room @ ''.'' @ [LF])
        \<in> set (sent (leave_room self s g) (snd (switch_to_room self room s g)))"
proof -
  have l: "sent g (leave_room self s g) =
     (if mode s = Mode_Room \<and> active_room s \<noteq> []
      then map (\<lambda>t. (t, colored_name s @ '' left room '' @ active_room s @ ''.'' @ [LF]))
             (set_erase self (map_at (active_room s) [] (rooms g)))
      else [])"
    by (rule sent_append) (rule leave_room_wire)
  have l': "self \<notin> fst ` set (sent g (leave_room self s g))"
    unfolding l by (auto simp: set_set_erase)
  have c: "sent g (send_message self text s g) =
          map (\<lambda>t. (t, colored_name s @ '' ['' @ active_room s @ '']: '' @ text @ [LF]))
            (filter (\<lambda>t. t \<noteq> self) (map_at (active_room s) [] (rooms g)))"
    if "mode s = Mode_Room \<and> active_room s \<noteq> []"
    by (rule sent_append) (rule send_message_room_wire [OF that])
  have c': "self \<notin> fst ` set (sent g (send_message self text s g))"
    if "mode s = Mode_Room \<and> active_room s \<noteq> []"
    unfolding c [OF that] by auto
  have j: "sent (leave_room self s g) (snd (switch_to_room self room s g)) =
        map (\<lambda>t. (t, colored_name s @ '' joined room '' @ room @ ''.'' @ [LF]))
          (set_insert self (map_at room [] (rooms (leave_room self s g))))
        @ [(self, ''You are now in room '' @ room @ ''. Type to chat here.'' @ [LF])]"
    by (rule sent_append) (rule switch_to_room_wire)
  have j': "(self, colored_name s @ '' joined room '' @ room @ ''.'' @ [LF])
        \<in> set (sent (leave_room self s g) (snd (switch_to_room self room s g)))"
    unfolding j by (simp add: set_set_insert image_iff)
  from l l' c c' j j' show ?thesis by blast
qed

theorem room_notice_recipients_witness:
  "mode (the (heap (run trace_room2 init) 1)) = Mode_Room
   \<and> active_room (the (heap (run trace_room2 init) 1)) = ''lobby''
   \<and> map_at ''lobby'' [] (rooms (glob (run trace_room2 init))) = [1, 2]
   \<and> map fst (sent (glob (run trace_room2 init))
        (send_message 1 ''hello'' (the (heap (run trace_room2 init) 1)) (glob (run trace_room2 init))))
       = [2]
   \<and> map fst (sent (glob (run trace_room2 init))
        (leave_room 1 (the (heap (run trace_room2 init) 1)) (glob (run trace_room2 init))))
       = [2]"
proof -
  have m: "mode (the (heap (run trace_room2 init) 1)) = Mode_Room"
    unfolding trace_room2_def by code_simp
  have a: "active_room (the (heap (run trace_room2 init) 1)) = ''lobby''"
    unfolding trace_room2_def by code_simp
  have ne: "active_room (the (heap (run trace_room2 init) 1)) \<noteq> []"
    unfolding trace_room2_def by code_simp
  have r: "map_at ''lobby'' [] (rooms (glob (run trace_room2 init))) = [1, 2]"
    unfolding trace_room2_def by code_simp
  have r': "map_at (active_room (the (heap (run trace_room2 init) 1))) []
              (rooms (glob (run trace_room2 init))) = [1, 2]"
    unfolding trace_room2_def by code_simp
  have f: "filter (\<lambda>t. t \<noteq> 1) [1, 2 :: nat] = [2]" by simp
  have e: "set_erase 1 [1, 2] = [2]" by code_simp
  note t = room_notice_recipients [of "glob (run trace_room2 init)" 1
      "the (heap (run trace_room2 init) 1)" "''hello''"]
  from t m ne
  have x: "sent (glob (run trace_room2 init))
        (send_message 1 ''hello'' (the (heap (run trace_room2 init) 1)) (glob (run trace_room2 init)))
      = map (\<lambda>t. (t, colored_name (the (heap (run trace_room2 init) 1)) @ '' [''
              @ active_room (the (heap (run trace_room2 init) 1)) @ '']: '' @ ''hello'' @ [LF]))
          (filter (\<lambda>t. t \<noteq> 1)
             (map_at (active_room (the (heap (run trace_room2 init) 1))) []
                (rooms (glob (run trace_room2 init)))))"
    by blast
  have 1: "map fst (sent (glob (run trace_room2 init))
        (send_message 1 ''hello'' (the (heap (run trace_room2 init) 1)) (glob (run trace_room2 init))))
       = [2]"
    unfolding x r' f by simp
  from t m ne
  have y: "sent (glob (run trace_room2 init))
        (leave_room 1 (the (heap (run trace_room2 init) 1)) (glob (run trace_room2 init)))
      = map (\<lambda>t. (t, colored_name (the (heap (run trace_room2 init) 1)) @ '' left room ''
              @ active_room (the (heap (run trace_room2 init) 1)) @ ''.'' @ [LF]))
          (set_erase 1
             (map_at (active_room (the (heap (run trace_room2 init) 1))) []
                (rooms (glob (run trace_room2 init)))))"
    by metis
  have 2: "map fst (sent (glob (run trace_room2 init))
        (leave_room 1 (the (heap (run trace_room2 init) 1)) (glob (run trace_room2 init))))
       = [2]"
    unfolding y r' e by simp
  from m a r 1 2 show ?thesis by blast
qed

subsection \<open>C6: names are unique\<close>

text \<open>
  Claim C6 says that no two live sessions ever hold the same name. The code at a concrete
  run: session 1 takes the name \<open>a\<close>; a write to session 1 fails, and the write handler
  runs \<open>cleanup\<close>, which erases the session from \<open>sessions\<close> and its name from
  \<open>users_by_name\<close>, while the object keeps \<open>name_\<close> and \<open>has_name_\<close> and its read
  stays armed; session 2 asks for the name \<open>a\<close> and gets it; both join the room \<open>x\<close>,
  and the chat line of each reaches the other under the name \<open>a\<close>.
\<close>

theorem two_sessions_same_name:
  "reachable (run (trace_dup @ [Recv 1 ''hello'']) init)
   \<and> sessions (glob (run [Accept 1, Recv 1 ''a'', Io_error 1] init)) = []
   \<and> users_by_name (glob (run [Accept 1, Recv 1 ''a'', Io_error 1] init)) = []
   \<and> map_option name (heap (run [Accept 1, Recv 1 ''a'', Io_error 1] init) 1) = Some ''a''
   \<and> map_option has_name (heap (run [Accept 1, Recv 1 ''a'', Io_error 1] init) 1) = Some True
   \<and> sessions (glob (run trace_dup init)) = [2]
   \<and> users_by_name (glob (run trace_dup init)) = [(''a'', Some 2)]
   \<and> map_option name (heap (run trace_dup init) 1) = Some ''a''
   \<and> map_option has_name (heap (run trace_dup init) 1) = Some True
   \<and> map_option name (heap (run trace_dup init) 2) = Some ''a''
   \<and> map_option has_name (heap (run trace_dup init) 2) = Some True
   \<and> rooms (glob (run trace_dup init)) = [(''x'', [1, 2])]
   \<and> sent (glob (run trace_dup init)) (glob (run (trace_dup @ [Recv 1 ''hello'']) init))
       = [(2, ESC # ''[36ma'' @ ESC # ''[0m [x]: hello'' @ [LF])]
   \<and> sent (glob (run trace_dup init)) (glob (run (trace_dup @ [Recv 2 ''hello'']) init))
       = [(1, ESC # ''[32ma'' @ ESC # ''[0m [x]: hello'' @ [LF])]"
proof -
  have v: "valid_run (trace_dup @ [Recv 1 ''hello'']) init" unfolding trace_dup_def by code_simp
  have r: "reachable (run (trace_dup @ [Recv 1 ''hello'']) init)"
    by (rule reachable_run [OF reachable_init v])
  have "sessions (glob (run [Accept 1, Recv 1 ''a'', Io_error 1] init)) = []" by code_simp
  moreover have "users_by_name (glob (run [Accept 1, Recv 1 ''a'', Io_error 1] init)) = []"
    by code_simp
  moreover have "map_option name (heap (run [Accept 1, Recv 1 ''a'', Io_error 1] init) 1) = Some ''a''"
    by code_simp
  moreover have "map_option has_name (heap (run [Accept 1, Recv 1 ''a'', Io_error 1] init) 1) = Some True"
    by code_simp
  moreover have "sessions (glob (run trace_dup init)) = [2]" unfolding trace_dup_def by code_simp
  moreover have "users_by_name (glob (run trace_dup init)) = [(''a'', Some 2)]"
    unfolding trace_dup_def by code_simp
  moreover have "map_option name (heap (run trace_dup init) 1) = Some ''a''"
    unfolding trace_dup_def by code_simp
  moreover have "map_option has_name (heap (run trace_dup init) 1) = Some True"
    unfolding trace_dup_def by code_simp
  moreover have "map_option name (heap (run trace_dup init) 2) = Some ''a''"
    unfolding trace_dup_def by code_simp
  moreover have "map_option has_name (heap (run trace_dup init) 2) = Some True"
    unfolding trace_dup_def by code_simp
  moreover have "rooms (glob (run trace_dup init)) = [(''x'', [1, 2])]"
    unfolding trace_dup_def by code_simp
  moreover have "sent (glob (run trace_dup init)) (glob (run (trace_dup @ [Recv 1 ''hello'']) init))
       = [(2, ESC # ''[36ma'' @ ESC # ''[0m [x]: hello'' @ [LF])]"
    unfolding trace_dup_def by code_simp
  moreover have "sent (glob (run trace_dup init)) (glob (run (trace_dup @ [Recv 2 ''hello'']) init))
       = [(1, ESC # ''[32ma'' @ ESC # ''[0m [x]: hello'' @ [LF])]"
    unfolding trace_dup_def by code_simp
  ultimately show ?thesis using r by blast
qed

subsection \<open>C7: room membership and the mode of a session\<close>

text \<open>
  Claim C7. In every reachable state a session \<open>t\<close> is a member of the room \<open>r\<close> exactly
  when its object is in room mode with \<open>r\<close> as its active room, and every handler that
  can run next (a read with any command or chat text, an I/O error with its cleanup, an
  accept) leads to a state where this holds again.
\<close>

theorem room_membership_consistent:
  assumes "reachable st"
  shows "((t \<in> room_members r (glob st)) =
            (\<exists>s. heap st t = Some s \<and> mode s = Mode_Room \<and> active_room s = r))
       \<and> (enabled e st \<longrightarrow>
           ((t \<in> room_members r (glob (step e st))) =
              (\<exists>s. heap (step e st) t = Some s \<and> mode s = Mode_Room \<and> active_room s = r)))"
proof -
  have inv: "inv_rooms st'" if "reachable st'" for st'
    using reachable_inv [OF that] by simp
  have now: "inv_rooms st" by (rule inv [OF assms])
  have "inv_rooms (step e st)" if "enabled e st"
    by (rule inv [OF reachable_step [OF assms that]])
  with now show ?thesis by (simp add: inv_rooms_def)
qed

theorem room_membership_consistent_witness:
  "reachable (run trace_lobby init)
   \<and> enabled (Recv 1 ''/leave'') (run trace_lobby init)
   \<and> 1 \<in> room_members ''lobby'' (glob (run trace_lobby init))
   \<and> map_option mode (heap (run trace_lobby init) 1) = Some Mode_Room
   \<and> map_option active_room (heap (run trace_lobby init) 1) = Some ''lobby''
   \<and> 1 \<notin> room_members ''lobby'' (glob (step (Recv 1 ''/leave'') (run trace_lobby init)))
   \<and> map_option mode (heap (step (Recv 1 ''/leave'') (run trace_lobby init)) 1) = Some Mode_None"
proof -
  have v: "valid_run trace_lobby init" unfolding trace_lobby_def by code_simp
  have r: "reachable (run trace_lobby init)" by (rule reachable_run [OF reachable_init v])
  have e: "enabled (Recv 1 ''/leave'') (run trace_lobby init)"
    unfolding trace_lobby_def by code_simp
  have m: "map_option mode (heap (run trace_lobby init) 1) = Some Mode_Room"
    unfolding trace_lobby_def by code_simp
  have a: "map_option active_room (heap (run trace_lobby init) 1) = Some ''lobby''"
    unfolding trace_lobby_def by code_simp
  have m': "map_option mode (heap (step (Recv 1 ''/leave'') (run trace_lobby init)) 1) = Some Mode_None"
    unfolding trace_lobby_def by code_simp
  from room_membership_consistent [OF r, of 1 "''lobby''" "Recv 1 ''/leave''"] e m a m'
  show ?thesis using r by auto
qed

subsection \<open>C8: a private chat with an invalid target\<close>

text \<open>
  Claim C8 says that a \<open>/pv\<close> to a name that is not registered is answered with an
  error and leaves the routing context as it was. The code at a concrete run: after the
  run of C2, \<open>users_by_name\<close> holds the key \<open>b\<close> with a null pointer and no session of
  \<open>sessions\<close> has that name; session 1, in the room \<open>lobby\<close> with session 3, sends
  \<open>/pv b\<close>. \<open>count\<close> finds the key, so the command is carried out: session 1 is erased
  from \<open>lobby\<close>, session 3 is told, and the mode of session 1 becomes private chat with
  the peer \<open>b\<close>. In the same state a \<open>/pv\<close> to \<open>zed\<close>, which is no key, is answered
  with "User not found." and changes nothing.
\<close>

theorem pv_to_unheld_name:
  "reachable (run (trace_null @ [Recv 1 ''/pv b'']) init)
   \<and> sessions (glob (run trace_null init)) = [1, 3]
   \<and> users_by_name (glob (run trace_null init)) = [(''a'', Some 1), (''b'', None), (''c'', Some 3)]
   \<and> rooms (glob (run trace_null init)) = [(''lobby'', [1, 3])]
   \<and> map_option mode (heap (run trace_null init) 1) = Some Mode_Room
   \<and> map_option active_room (heap (run trace_null init) 1) = Some ''lobby''
   \<and> map_option mode (heap (run (trace_null @ [Recv 1 ''/pv b'']) init) 1) = Some Mode_Pv
   \<and> map_option active_room (heap (run (trace_null @ [Recv 1 ''/pv b'']) init) 1) = Some []
   \<and> map_option active_pv (heap (run (trace_null @ [Recv 1 ''/pv b'']) init) 1) = Some ''b''
   \<and> rooms (glob (run (trace_null @ [Recv 1 ''/pv b'']) init)) = [(''lobby'', [3])]
   \<and> sent (glob (run trace_null init)) (glob (run (trace_null @ [Recv 1 ''/pv b'']) init))
       = [(3, ESC # ''[36ma'' @ ESC # ''[0m left room lobby.'' @ [LF]),
          (1, ''Private chat with b started. Type to chat.'' @ [LF])]
   \<and> sent (glob (run trace_null init)) (glob (run (trace_null @ [Recv 1 ''/pv zed'']) init))
       = [(1, ''User not found.'' @ [LF])]
   \<and> rooms (glob (run (trace_null @ [Recv 1 ''/pv zed'']) init)) = [(''lobby'', [1, 3])]
   \<and> map_option mode (heap (run (trace_null @ [Recv 1 ''/pv zed'']) init) 1) = Some Mode_Room"
proof -
  have v: "valid_run (trace_null @ [Recv 1 ''/pv b'']) init" unfolding trace_null_def by code_simp
  have r: "reachable (run (trace_null @ [Recv 1 ''/pv b'']) init)"
    by (rule reachable_run [OF reachable_init v])
  have "sessions (glob (run trace_null init)) = [1, 3]" unfolding trace_null_def by code_simp
  moreover have "users_by_name (glob (run trace_null init))
      = [(''a'', Some 1), (''b'', None), (''c'', Some 3)]"
    unfolding trace_null_def by code_simp
  moreover have "rooms (glob (run trace_null init)) = [(''lobby'', [1, 3])]"
    unfolding trace_null_def by code_simp
  moreover have "map_option mode (heap (run trace_null init) 1) = Some Mode_Room"
    unfolding trace_null_def by code_simp
  moreover have "map_option active_room (heap (run trace_null init) 1) = Some ''lobby''"
    unfolding trace_null_def by code_simp
  moreover have "map_option mode (heap (run (trace_null @ [Recv 1 ''/pv b'']) init) 1) = Some Mode_Pv"
    unfolding trace_null_def by code_simp
  moreover have "map_option active_room (heap (run (trace_null @ [Recv 1 ''/pv b'']) init) 1) = Some []"
    unfolding trace_null_def by code_simp
  moreover have "map_option active_pv (heap (run (trace_null @ [Recv 1 ''/pv b'']) init) 1) = Some ''b''"
    unfolding trace_null_def by code_simp
  moreover have "rooms (glob (run (trace_null @ [Recv 1 ''/pv b'']) init)) = [(''lobby'', [3])]"
    unfolding trace_null_def by code_simp
  moreover have "sent (glob (run trace_null init)) (glob (run (trace_null @ [Recv 1 ''/pv b'']) init))
       = [(3, ESC # ''[36ma'' @ ESC # ''[0m left room lobby.'' @ [LF]),
          (1, ''Private chat with b started. Type to chat.'' @ [LF])]"
    unfolding trace_null_def by code_simp
  moreover have "sent (glob (run trace_null init)) (glob (run (trace_null @ [Recv 1 ''/pv zed'']) init))
       = [(1, ''User not found.'' @ [LF])]"
    unfolding trace_null_def by code_simp
  moreover have "rooms (glob (run (trace_null @ [Recv 1 ''/pv zed'']) init)) = [(''lobby'', [1, 3])]"
    unfolding trace_null_def by code_simp
  moreover have "map_option mode (heap (run (trace_null @ [Recv 1 ''/pv zed'']) init) 1) = Some Mode_Room"
    unfolding trace_null_def by code_simp
  ultimately show ?thesis using r by blast
qed

subsection \<open>C9: the preprocessing of a chunk\<close>

text \<open>
  The claim as written (carriage returns and newlines are stripped at the end of the
  chunk) fails: \<open>trim\<close> deletes the newline between \<open>a\<close> and \<open>b\<close>, which the
  preprocessing in the words of the specification keeps.
\<close>

theorem trim_counterexample:
  "trim [CHR ''a'', LF, CHR ''b''] = ''ab''
   \<and> spec_trim [CHR ''a'', LF, CHR ''b''] = [CHR ''a'', LF, CHR ''b'']
   \<and> trim [CHR ''a'', LF, CHR ''b''] \<noteq> spec_trim [CHR ''a'', LF, CHR ''b'']"
  by code_simp

text \<open>
  Claim C9, as amended. The preprocessing of a chunk deletes every carriage return and
  every newline of the chunk, wherever it stands and not only at the end, and then trims
  the whitespace at both ends, so that what is left neither starts nor ends with
  whitespace. A chunk that is empty after the preprocessing is discarded: no session, no container and no write changes.
\<close>

theorem trim_removes_every_crlf:
  "trim chunk = strip_whitespace (filter (\<lambda>c. c \<noteq> CR \<and> c \<noteq> LF) chunk)
   \<and> CR \<notin> set (trim chunk) \<and> LF \<notin> set (trim chunk)
   \<and> (trim chunk \<noteq> [] \<longrightarrow> \<not> isspace (hd (trim chunk)) \<and> \<not> isspace (last (trim chunk)))
   \<and> (trim chunk = [] \<longrightarrow> do_read self chunk s g = (s, g) \<and> step (Recv self chunk) st = st)"
proof -
  have "set (trim chunk) \<subseteq> set (filter (\<lambda>c. c \<noteq> CR \<and> c \<noteq> LF) chunk)"
    unfolding trim_strip_whitespace by (rule set_strip_whitespace)
  then have "CR \<notin> set (trim chunk)" "LF \<notin> set (trim chunk)" by auto
  moreover have "do_read self chunk s g = (s, g)" if "trim chunk = []"
    using that by (simp add: do_read_def)
  ultimately show ?thesis using step_empty_chunk [of chunk self st] trim_hd [of chunk] trim_last [of chunk]
    by (simp add: trim_strip_whitespace [symmetric] del: step.simps)
qed

theorem trim_removes_every_crlf_witness:
  "trim ([CHR 0x20, CHR 0x09] @ [CR, LF]) = []
   \<and> do_read 1 ([CHR 0x20, CHR 0x09] @ [CR, LF]) (the (heap (run trace_two init) 1)) (glob (run trace_two init))
       = (the (heap (run trace_two init) 1), glob (run trace_two init))
   \<and> step (Recv 1 ([CHR 0x20, CHR 0x09] @ [CR, LF])) (run trace_two init) = run trace_two init
   \<and> trim ([CHR 0x20] @ ''a'' @ [CR, LF] @ ''b'' @ [LF]) = ''ab''
   \<and> \<not> isspace (hd (trim ([CHR 0x20] @ ''a'' @ [CR, LF] @ ''b'' @ [LF])))
   \<and> \<not> isspace (last (trim ([CHR 0x20] @ ''a'' @ [CR, LF] @ ''b'' @ [LF])))"
proof -
  have e: "trim ([CHR 0x20, CHR 0x09] @ [CR, LF]) = []" by code_simp
  have a: "trim ([CHR 0x20] @ ''a'' @ [CR, LF] @ ''b'' @ [LF]) = ''ab''" by code_simp
  have n: "trim ([CHR 0x20] @ ''a'' @ [CR, LF] @ ''b'' @ [LF]) \<noteq> []" by code_simp
  from trim_removes_every_crlf [of "[CHR 0x20] @ ''a'' @ [CR, LF] @ ''b'' @ [LF]"] n
  have h: "\<not> isspace (hd (trim ([CHR 0x20] @ ''a'' @ [CR, LF] @ ''b'' @ [LF])))
      \<and> \<not> isspace (last (trim ([CHR 0x20] @ ''a'' @ [CR, LF] @ ''b'' @ [LF])))"
    by blast
  from trim_removes_every_crlf [of "[CHR 0x20, CHR 0x09] @ [CR, LF]" 1
      "the (heap (run trace_two init) 1)" "glob (run trace_two init)" "run trace_two init"] e a h
  show ?thesis by blast
qed

subsection \<open>C10: cleanup of a session without a name\<close>

text \<open>
  Claim C10. When a session that has not set a name is cleaned up, nothing is written to
  any session (no "left the server" broadcast, no room notice), and the state changes
  only in that the session is erased from \<open>sessions\<close>.
\<close>

theorem unnamed_cleanup_silent:
  assumes "reachable st" and "heap st self = Some s" and "\<not> has_name s"
  shows "cleanup self s (glob st) = (s, (glob st)\<lparr>sessions := set_erase self (sessions (glob st))\<rparr>)
       \<and> step (Io_error self) st = st\<lparr>glob := (glob st)\<lparr>sessions := set_erase self (sessions (glob st))\<rparr>\<rparr>
       \<and> wire (glob (step (Io_error self) st)) = wire (glob st)"
proof -
  from reachable_inv [OF assms(1)] have "inv_unnamed st" by simp
  with assms(2,3) have idle: "mode s = Mode_None" "active_room s = []" "active_pv s = []" "name s = []"
    by (auto simp: inv_unnamed_def unnamed_ok_def)
  have c: "cleanup self s (glob st) = (s, (glob st)\<lparr>sessions := set_erase self (sessions (glob st))\<rparr>)"
    using idle assms(3) by (simp add: cleanup_def Let_def leave_room_def)
  have "(heap st)(self \<mapsto> s) = heap st" using assms(2) by (rule map_upd_triv)
  then have "step (Io_error self) st = st\<lparr>glob := (glob st)\<lparr>sessions := set_erase self (sessions (glob st))\<rparr>\<rparr>"
    using assms(2) c by (simp add: on_object_def)
  with c show ?thesis by simp
qed

theorem unnamed_cleanup_silent_witness:
  "reachable (run trace_two init)
   \<and> map_option has_name (heap (run trace_two init) 2) = Some False
   \<and> sessions (glob (run trace_two init)) = [1, 2]
   \<and> sessions (glob (step (Io_error 2) (run trace_two init))) = [1]
   \<and> wire (glob (step (Io_error 2) (run trace_two init))) = wire (glob (run trace_two init))"
proof -
  have v: "valid_run trace_two init" unfolding trace_two_def by code_simp
  have r: "reachable (run trace_two init)" by (rule reachable_run [OF reachable_init v])
  have "heap (run trace_two init) 2 \<noteq> None" unfolding trace_two_def by code_simp
  then have h: "heap (run trace_two init) 2 = Some (the (heap (run trace_two init) 2))" by simp
  have n: "\<not> has_name (the (heap (run trace_two init) 2))" unfolding trace_two_def by code_simp
  have s: "sessions (glob (run trace_two init)) = [1, 2]" unfolding trace_two_def by code_simp
  have e: "set_erase 2 [1, 2] = [1]" by code_simp
  have f: "map_option has_name (heap (run trace_two init) 2) = Some False"
    unfolding trace_two_def by code_simp
  from unnamed_cleanup_silent [OF r h n] s e f show ?thesis using r by simp
qed

end
